theory Spec2Isabelle
  imports Complex_Main "HOL-Library.AList"
begin

section \<open>Values exchanged with the admin console\<close>

text \<open>
  The scripts handle the values that \<^verbatim>\<open>response.json()\<close> returns: \<^verbatim>\<open>None\<close>, booleans,
  integers, floats, strings, lists and dicts with string keys. A float is represented by
  the rational number it denotes (only its comparison with zero and with other numbers is
  ever used; NaN and the infinities, which are not JSON, are left out). A dict is an
  association list in insertion order, read at the first entry of a key; the keys of a
  dict are distinct.
\<close>

datatype json =
    JNull
  | JBool bool
  | JInt int
  | JFloat rat
  | JStr string
  | JList "json list"
  | JObj "(string \<times> json) list"

text \<open>
  The exceptions of the scripts. \<open>DriverError\<close> stands for any exception that the
  browser driver raises (navigation, time-out, network failure, a response body that is
  not JSON); all of them derive from \<^verbatim>\<open>Exception\<close>.
\<close>

datatype py_error = AttributeError | TypeError | KeyError | IndexError | DriverError string

text \<open>Truth value of an object, as tested by \<^verbatim>\<open>if x\<close>, \<^verbatim>\<open>while x\<close> and \<^verbatim>\<open>not x\<close>.\<close>

fun truthy :: "json \<Rightarrow> bool" where
  "truthy JNull = False"
| "truthy (JBool b) = b"
| "truthy (JInt i) = (i \<noteq> 0)"
| "truthy (JFloat r) = (r \<noteq> 0)"
| "truthy (JStr s) = (s \<noteq> [])"
| "truthy (JList xs) = (xs \<noteq> [])"
| "truthy (JObj kvs) = (kvs \<noteq> [])"

text \<open>\<^verbatim>\<open>x.get(key, default)\<close>: only a dict has the method.\<close>

fun py_get :: "json \<Rightarrow> string \<Rightarrow> json \<Rightarrow> py_error + json" where
  "py_get (JObj kvs) k d = Inr (case map_of kvs k of None \<Rightarrow> d | Some v \<Rightarrow> v)"
| "py_get _ k d = Inl AttributeError"

text \<open>\<^verbatim>\<open>x[key]\<close> with a string key: a missing key is a KeyError, and a value that is
  not a dict cannot be subscripted by a string (TypeError).\<close>

fun py_getitem :: "json \<Rightarrow> string \<Rightarrow> py_error + json" where
  "py_getitem (JObj kvs) k = (case map_of kvs k of None \<Rightarrow> Inl KeyError | Some v \<Rightarrow> Inr v)"
| "py_getitem _ k = Inl TypeError"

text \<open>\<^verbatim>\<open>x[key] = v\<close> with a string key: an existing key keeps its position, a new one
  goes to the end.\<close>

fun py_setitem :: "json \<Rightarrow> string \<Rightarrow> json \<Rightarrow> py_error + json" where
  "py_setitem (JObj kvs) k v = Inr (JObj (AList.update k v kvs))"
| "py_setitem _ k v = Inl TypeError"

text \<open>The elements a \<^verbatim>\<open>for\<close> loop, a comprehension or \<^verbatim>\<open>list.extend\<close> draws from a
  value: the items of a list, the one-character strings of a string, the keys of a dict;
  anything else is not iterable.\<close>

fun py_iter :: "json \<Rightarrow> py_error + json list" where
  "py_iter (JList xs) = Inr xs"
| "py_iter (JStr s) = Inr (map (\<lambda>c. JStr [c]) s)"
| "py_iter (JObj kvs) = Inr (map (\<lambda>kv. JStr (fst kv)) kvs)"
| "py_iter _ = Inl TypeError"

text \<open>
  Keys of the membership index. Python compares dict keys with \<^verbatim>\<open>==\<close> after hashing:
  \<^verbatim>\<open>True\<close>, \<^verbatim>\<open>1\<close> and \<^verbatim>\<open>1.0\<close> are one key, \<^verbatim>\<open>None\<close> and every string is a key
  of its own, and lists and dicts cannot be hashed at all.
\<close>

datatype pykey = KNone | KNum rat | KStr string

fun hash_key :: "json \<Rightarrow> pykey option" where
  "hash_key JNull = Some KNone"
| "hash_key (JBool b) = Some (KNum (if b then 1 else 0))"
| "hash_key (JInt i) = Some (KNum (of_int i))"
| "hash_key (JFloat r) = Some (KNum r)"
| "hash_key (JStr s) = Some (KStr s)"
| "hash_key (JList xs) = None"
| "hash_key (JObj kvs) = None"

text \<open>A comprehension \<^verbatim>\<open>[f(x) for x in xs]\<close> stops at the first element that raises.\<close>

fun comprehension :: "('a \<Rightarrow> py_error + 'b) \<Rightarrow> 'a list \<Rightarrow> py_error + 'b list" where
  "comprehension f [] = Inr []"
| "comprehension f (x # xs) =
     (case f x of
        Inl e \<Rightarrow> Inl e
      | Inr y \<Rightarrow> (case comprehension f xs of Inl e \<Rightarrow> Inl e | Inr ys \<Rightarrow> Inr (y # ys)))"

section \<open>The join and the two output files (\<^verbatim>\<open>save_to_json\<close> of login.py)\<close>

type_synonym index = "pykey \<rightharpoonup> json list"

text \<open>Step 1, the dict comprehension
  \<^verbatim>\<open>{user.get("accountId"): [] for user in users_data if user.get("accountId")}\<close>.\<close>

fun user_to_groups_init :: "json list \<Rightarrow> index \<Rightarrow> py_error + index" where
  "user_to_groups_init [] m = Inr m"
| "user_to_groups_init (user # users) m =
     (case py_get user ''accountId'' JNull of
        Inl e \<Rightarrow> Inl e
      | Inr account_id \<Rightarrow>
          if truthy account_id then
            (case hash_key account_id of
               None \<Rightarrow> Inl TypeError
             | Some k \<Rightarrow> user_to_groups_init users (m(k \<mapsto> [])))
          else user_to_groups_init users m)"

text \<open>Step 2, the inner loop over the members of one group.\<close>

fun add_members :: "json \<Rightarrow> json list \<Rightarrow> index \<Rightarrow> py_error + index" where
  "add_members group_name [] m = Inr m"
| "add_members group_name (member # members) m =
     (case py_get member ''id'' JNull of
        Inl e \<Rightarrow> Inl e
      | Inr member_id \<Rightarrow>
          (case hash_key member_id of
             None \<Rightarrow> Inl TypeError
           | Some k \<Rightarrow>
               (case m k of
                  Some names \<Rightarrow> add_members group_name members (m(k \<mapsto> names @ [group_name]))
                | None \<Rightarrow> add_members group_name members m)))"

text \<open>Step 2, the outer loop over the groups.\<close>

fun add_groups :: "json list \<Rightarrow> index \<Rightarrow> py_error + index" where
  "add_groups [] m = Inr m"
| "add_groups (grp # groups) m =
     (case py_get grp ''name'' JNull of
        Inl e \<Rightarrow> Inl e
      | Inr group_name \<Rightarrow>
          (case py_get grp ''members'' (JList []) of
             Inl e \<Rightarrow> Inl e
           | Inr ms \<Rightarrow>
               (case py_iter ms of
                  Inl e \<Rightarrow> Inl e
                | Inr members \<Rightarrow>
                    (case add_members group_name members m of
                       Inl e \<Rightarrow> Inl e
                     | Inr m' \<Rightarrow> add_groups groups m'))))"

text \<open>Steps 1 and 2 together: the value of the variable \<^verbatim>\<open>user_to_groups_map\<close> when
  step 3 starts.\<close>

definition user_to_groups_map :: "json list \<Rightarrow> json list \<Rightarrow> py_error + index" where
  "user_to_groups_map users_data groups_data =
     (case user_to_groups_init users_data Map.empty of
        Inl e \<Rightarrow> Inl e
      | Inr m0 \<Rightarrow> add_groups groups_data m0)"

text \<open>Step 3, one record of users.json. The fields are evaluated in the order written;
  the last one, \<^verbatim>\<open>user_to_groups_map.get(user.get("accountId"), [])\<close>, hashes the id.\<close>

definition user_record :: "index \<Rightarrow> json \<Rightarrow> py_error + json" where
  "user_record m user =
     (case py_get user ''accountId'' JNull of Inl e \<Rightarrow> Inl e | Inr v_id \<Rightarrow>
      case py_get user ''name'' JNull of Inl e \<Rightarrow> Inl e | Inr v_name \<Rightarrow>
      case py_get user ''email'' JNull of Inl e \<Rightarrow> Inl e | Inr v_email \<Rightarrow>
      case py_get user ''last_active_date'' JNull of Inl e \<Rightarrow> Inl e | Inr v_last \<Rightarrow>
      case py_get user ''status'' JNull of Inl e \<Rightarrow> Inl e | Inr v_status \<Rightarrow>
      case hash_key v_id of None \<Rightarrow> Inl TypeError | Some k \<Rightarrow>
        Inr (JObj [(''id'', v_id), (''name'', v_name), (''email'', v_email),
                   (''last_active'', v_last), (''status'', v_status),
                   (''groups'', JList (case m k of None \<Rightarrow> [] | Some names \<Rightarrow> names))]))"

text \<open>Step 4, one record of groups.json.\<close>

definition group_record :: "json \<Rightarrow> py_error + json" where
  "group_record grp =
     (case py_get grp ''id'' JNull of Inl e \<Rightarrow> Inl e | Inr v_id \<Rightarrow>
      case py_get grp ''name'' JNull of Inl e \<Rightarrow> Inl e | Inr v_name \<Rightarrow>
      case py_get grp ''description'' JNull of Inl e \<Rightarrow> Inl e | Inr v_descr \<Rightarrow>
      case py_get grp ''members'' (JList []) of Inl e \<Rightarrow> Inl e | Inr ms \<Rightarrow>
      case py_iter ms of Inl e \<Rightarrow> Inl e | Inr members \<Rightarrow>
      case comprehension (\<lambda>member. py_get member ''displayName'' JNull) members of
        Inl e \<Rightarrow> Inl e
      | Inr names \<Rightarrow>
          Inr (JObj [(''id'', v_id), (''name'', v_name), (''description'', v_descr),
                     (''members'', JList names)]))"

text \<open>
  The files of the working directory: a file name is mapped to the document dumped into
  it. \<^verbatim>\<open>save_to_json\<close> returns nothing; the result is the exception that left it, if
  any, and the files as they are then. Each file is opened and written only after its
  list has been built. (Failures of the file system itself are not modelled.)
\<close>

type_synonym files = "string \<rightharpoonup> json"

definition save_to_json :: "files \<Rightarrow> json list \<Rightarrow> json list \<Rightarrow> py_error option \<times> files" where
  "save_to_json fs users_data groups_data =
     (case user_to_groups_map users_data groups_data of
        Inl e \<Rightarrow> (Some e, fs)
      | Inr m \<Rightarrow>
     (case comprehension (user_record m) users_data of
        Inl e \<Rightarrow> (Some e, fs)
      | Inr users_output \<Rightarrow>
          let fs1 = fs(''users.json'' \<mapsto> JList users_output) in
          (case comprehension group_record groups_data of
             Inl e \<Rightarrow> (Some e, fs1)
           | Inr groups_output \<Rightarrow> (None, fs1(''groups.json'' \<mapsto> JList groups_output)))))"

definition no_files :: files where
  "no_files = Map.empty"

subsection \<open>Notions used to state the properties of the join\<close>

text \<open>\<open>field k x\<close> is the value \<^verbatim>\<open>x.get(k)\<close> of a record \<open>x\<close> (\<^verbatim>\<open>None\<close> when the key
  is missing); \<open>members_of g\<close> is the list that the loops over
  \<^verbatim>\<open>group.get('members', [])\<close> run through.\<close>

definition field :: "string \<Rightarrow> json \<Rightarrow> json" where
  "field k x = (case py_get x k JNull of Inr v \<Rightarrow> v | Inl e \<Rightarrow> JNull)"

definition members_of :: "json \<Rightarrow> json list" where
  "members_of g =
     (case py_get g ''members'' (JList []) of
        Inl e \<Rightarrow> []
      | Inr ms \<Rightarrow> (case py_iter ms of Inl e \<Rightarrow> [] | Inr xs \<Rightarrow> xs))"

text \<open>Two identifiers match when they are the same dict key.\<close>

definition same_key :: "json \<Rightarrow> json \<Rightarrow> bool" where
  "same_key a b = (hash_key a \<noteq> None \<and> hash_key a = hash_key b)"

text \<open>The names of the groups, in order, once for every member entry whose id matches
  the given account id.\<close>

definition linked_names :: "json \<Rightarrow> json list \<Rightarrow> json list" where
  "linked_names account_id groups_data =
     concat (map (\<lambda>g. map (\<lambda>member. field ''name'' g)
                          (filter (\<lambda>member. same_key (field ''id'' member) account_id)
                                  (members_of g)))
                 groups_data)"

subsection \<open>Facts about the steps of the join\<close>

lemma key_truthy: "hash_key a = Some k \<Longrightarrow> hash_key b = Some k \<Longrightarrow> truthy a = truthy b"
  by (cases a; cases b) (auto split: if_splits)

lemma py_get_field: "py_get x k JNull = Inr v \<Longrightarrow> field k x = v"
  by (simp add: field_def)

lemma comprehension_Inr:
  "comprehension f xs = Inr ys \<Longrightarrow>
     length ys = length xs \<and> (\<forall>i<length xs. f (xs ! i) = Inr (ys ! i))"
proof (induction xs arbitrary: ys)
  case Nil
  then show ?case by simp
next
  case (Cons x xs)
  then show ?case
    by (auto split: sum.splits simp: nth_Cons split: nat.splits)
qed

lemma comprehension_map:
  "comprehension f xs = Inr ys \<Longrightarrow> (\<And>x y. x \<in> set xs \<Longrightarrow> f x = Inr y \<Longrightarrow> g x = y) \<Longrightarrow> ys = map g xs"
proof (induction xs arbitrary: ys)
  case Nil
  then show ?case by simp
next
  case (Cons x xs)
  then show ?case
    by (auto split: sum.splits)
qed

lemma init_char:
  "user_to_groups_init us m = Inr m' \<Longrightarrow>
     m' k = (if \<exists>u\<in>set us. truthy (field ''accountId'' u) \<and> hash_key (field ''accountId'' u) = Some k
             then Some [] else m k)"
proof (induction us arbitrary: m)
  case Nil
  then show ?case by simp
next
  case (Cons u us)
  then show ?case
    by (auto split: sum.splits if_splits option.splits dest!: py_get_field)
qed

lemma add_members_char:
  "add_members n ms m = Inr m' \<Longrightarrow>
     m' k = (case m k of None \<Rightarrow> None
             | Some names \<Rightarrow> Some (names @ map (\<lambda>member. n)
                 (filter (\<lambda>member. hash_key (field ''id'' member) = Some k) ms)))"
proof (induction ms arbitrary: m)
  case Nil
  then show ?case by (simp split: option.splits)
next
  case (Cons a ms)
  then show ?case
    by (auto split: sum.splits if_splits option.splits dest!: py_get_field)
qed

text \<open>The names appended to the entry of one key.\<close>

definition names_at :: "pykey \<Rightarrow> json list \<Rightarrow> json list" where
  "names_at k groups_data =
     concat (map (\<lambda>g. map (\<lambda>member. field ''name'' g)
                          (filter (\<lambda>member. hash_key (field ''id'' member) = Some k)
                                  (members_of g)))
                 groups_data)"

lemma add_groups_char:
  "add_groups gs m = Inr m' \<Longrightarrow>
     m' k = (case m k of None \<Rightarrow> None | Some names \<Rightarrow> Some (names @ names_at k gs))"
proof (induction gs arbitrary: m)
  case Nil
  then show ?case by (simp add: names_at_def split: option.splits)
next
  case (Cons g gs)
  from Cons.prems obtain n ms members m1 where
    n: "py_get g ''name'' JNull = Inr n" and
    ms: "py_get g ''members'' (JList []) = Inr ms" and
    it: "py_iter ms = Inr members" and
    am: "add_members n members m = Inr m1" and
    rest: "add_groups gs m1 = Inr m'"
    by (auto split: sum.splits)
  have mo: "members_of g = members" using ms it by (simp add: members_of_def)
  have fn: "field ''name'' g = n" using n by (rule py_get_field)
  show ?case
    using Cons.IH[OF rest] add_members_char[OF am, of k] mo fn
    by (auto simp: names_at_def split: option.splits)
qed

lemma same_key_Some: "hash_key a = Some k \<Longrightarrow> same_key x a = (hash_key x = Some k)"
  by (auto simp: same_key_def)

lemma names_at_linked: "hash_key a = Some k \<Longrightarrow> names_at k gs = linked_names a gs"
  by (simp add: names_at_def linked_names_def same_key_Some)

lemma index_char:
  assumes "user_to_groups_map us gs = Inr m"
  shows "m k = (if \<exists>u\<in>set us. truthy (field ''accountId'' u) \<and> hash_key (field ''accountId'' u) = Some k
                then Some (names_at k gs) else None)"
proof -
  from assms obtain m0 where a: "user_to_groups_init us Map.empty = Inr m0" and b: "add_groups gs m0 = Inr m"
    by (auto simp: user_to_groups_map_def split: sum.splits)
  show ?thesis using init_char[OF a, of k] add_groups_char[OF b, of k] by (auto split: option.splits)
qed

lemma index_lookup:
  assumes "user_to_groups_map us gs = Inr m" and "u \<in> set us" and "hash_key (field ''accountId'' u) = Some k"
  shows "(case m k of None \<Rightarrow> [] | Some names \<Rightarrow> names) =
         (if truthy (field ''accountId'' u) then linked_names (field ''accountId'' u) gs else [])"
proof (cases "truthy (field ''accountId'' u)")
  case True
  then show ?thesis using assms index_char[OF assms(1), of k] names_at_linked[OF assms(3)] by auto
next
  case False
  have "\<not> (\<exists>v\<in>set us. truthy (field ''accountId'' v) \<and> hash_key (field ''accountId'' v) = Some k)"
    using False key_truthy[OF assms(3)] by blast
  with index_char[OF assms(1), of k] have "m k = None" by metis
  then show ?thesis using False by simp
qed

lemma user_record_fields:
  assumes "user_record m u = Inr r"
  shows "\<exists>k. hash_key (field ''accountId'' u) = Some k \<and>
           r = JObj [(''id'', field ''accountId'' u), (''name'', field ''name'' u),
                     (''email'', field ''email'' u), (''last_active'', field ''last_active_date'' u),
                     (''status'', field ''status'' u),
                     (''groups'', JList (case m k of None \<Rightarrow> [] | Some names \<Rightarrow> names))]"
  using assms unfolding user_record_def
  by (auto split: sum.splits option.splits dest!: py_get_field)

lemma group_record_fields:
  assumes "group_record g = Inr r"
  shows "r = JObj [(''id'', field ''id'' g), (''name'', field ''name'' g),
                   (''description'', field ''description'' g),
                   (''members'', JList (map (field ''displayName'') (members_of g)))]"
proof -
  from assms obtain ms members names where
    ms: "py_get g ''members'' (JList []) = Inr ms" and
    it: "py_iter ms = Inr members" and
    c: "comprehension (\<lambda>member. py_get member ''displayName'' JNull) members = Inr names" and
    r: "r = JObj [(''id'', field ''id'' g), (''name'', field ''name'' g),
                   (''description'', field ''description'' g), (''members'', JList names)]"
    unfolding group_record_def
    by (auto split: sum.splits dest!: py_get_field)
  have "names = map (field ''displayName'') members"
    using c by (rule comprehension_map) (simp add: py_get_field)
  moreover have "members_of g = members" using ms it by (simp add: members_of_def)
  ultimately show ?thesis using r by simp
qed

lemma save_to_json_ok:
  assumes "save_to_json fs us gs = (None, fs')"
  shows "\<exists>m uo go. user_to_groups_map us gs = Inr m \<and>
           comprehension (user_record m) us = Inr uo \<and>
           comprehension group_record gs = Inr go \<and>
           fs' = fs(''users.json'' \<mapsto> JList uo, ''groups.json'' \<mapsto> JList go)"
  using assms unfolding save_to_json_def
  by (auto split: sum.splits simp: Let_def)


subsection \<open>The output files\<close>

text \<open>The records of the two files, read back from the working directory.\<close>

definition users_json :: "files \<Rightarrow> json list" where
  "users_json fs = (case fs ''users.json'' of Some (JList rs) \<Rightarrow> rs | _ \<Rightarrow> [])"

definition groups_json :: "files \<Rightarrow> json list" where
  "groups_json fs = (case fs ''groups.json'' of Some (JList rs) \<Rightarrow> rs | _ \<Rightarrow> [])"

text \<open>A small run: two users, one of them without an account id, and one group with a
  member that is no user.\<close>

definition example_users :: "json list" where
  "example_users =
     [JObj [(''accountId'', JStr ''u1''), (''name'', JStr ''Ann''), (''email'', JStr ''ann@example.com''),
            (''last_active_date'', JStr ''2024-01-01''), (''status'', JStr ''active'')],
      JObj [(''name'', JStr ''Bob'')]]"

definition example_groups :: "json list" where
  "example_groups =
     [JObj [(''id'', JStr ''g1''), (''name'', JStr ''devs''), (''description'', JStr ''Developers''),
            (''members'', JList [JObj [(''id'', JStr ''u1''), (''displayName'', JStr ''Ann'')],
                                 JObj [(''id'', JStr ''u9''), (''displayName'', JStr ''Zed'')]])]]"

lemmas example_simps =
  example_users_def example_groups_def save_to_json_def user_to_groups_map_def user_record_def
  group_record_def no_files_def users_json_def groups_json_def field_def members_of_def
  same_key_def linked_names_def

lemma example_run:
  "save_to_json no_files example_users example_groups =
     (None, snd (save_to_json no_files example_users example_groups))"
  by (simp add: example_simps)

text \<open>
  Claim C6. Whenever \<^verbatim>\<open>save_to_json\<close> completes, both files are written, the lists in
  them have the length and order of the input collections, and record by record the
  fields id, name, email, last_active and status of users.json are the input record's
  accountId, name, email, last_active_date and status, and the fields id, name and
  description of groups.json are the input group's.
\<close>

theorem save_to_json_keeps_fields:
  assumes "save_to_json fs users_data groups_data = (None, fs')"
  shows "\<exists>uo go. fs' = fs(''users.json'' \<mapsto> JList uo, ''groups.json'' \<mapsto> JList go) \<and>
           length uo = length users_data \<and> length go = length groups_data \<and>
           (\<forall>i<length users_data.
               field ''id'' (uo ! i) = field ''accountId'' (users_data ! i) \<and>
               field ''name'' (uo ! i) = field ''name'' (users_data ! i) \<and>
               field ''email'' (uo ! i) = field ''email'' (users_data ! i) \<and>
               field ''last_active'' (uo ! i) = field ''last_active_date'' (users_data ! i) \<and>
               field ''status'' (uo ! i) = field ''status'' (users_data ! i)) \<and>
           (\<forall>i<length groups_data.
               field ''id'' (go ! i) = field ''id'' (groups_data ! i) \<and>
               field ''name'' (go ! i) = field ''name'' (groups_data ! i) \<and>
               field ''description'' (go ! i) = field ''description'' (groups_data ! i))"
proof -
  from save_to_json_ok[OF assms] obtain m uo go where
    cu: "comprehension (user_record m) users_data = Inr uo" and
    cg: "comprehension group_record groups_data = Inr go" and
    fs': "fs' = fs(''users.json'' \<mapsto> JList uo, ''groups.json'' \<mapsto> JList go)"
    by blast
  note lu = comprehension_Inr[OF cu] and lg = comprehension_Inr[OF cg]
  have u: "field ''id'' (uo ! i) = field ''accountId'' (users_data ! i) \<and>
           field ''name'' (uo ! i) = field ''name'' (users_data ! i) \<and>
           field ''email'' (uo ! i) = field ''email'' (users_data ! i) \<and>
           field ''last_active'' (uo ! i) = field ''last_active_date'' (users_data ! i) \<and>
           field ''status'' (uo ! i) = field ''status'' (users_data ! i)"
    if "i < length users_data" for i
  proof -
    from lu that have "user_record m (users_data ! i) = Inr (uo ! i)" by blast
    from user_record_fields[OF this] obtain k where
      "uo ! i = JObj [(''id'', field ''accountId'' (users_data ! i)), (''name'', field ''name'' (users_data ! i)),
                     (''email'', field ''email'' (users_data ! i)),
                     (''last_active'', field ''last_active_date'' (users_data ! i)),
                     (''status'', field ''status'' (users_data ! i)),
                     (''groups'', JList (case m k of None \<Rightarrow> [] | Some names \<Rightarrow> names))]"
      by blast
    then show ?thesis by (simp add: field_def)
  qed
  have g: "field ''id'' (go ! i) = field ''id'' (groups_data ! i) \<and>
           field ''name'' (go ! i) = field ''name'' (groups_data ! i) \<and>
           field ''description'' (go ! i) = field ''description'' (groups_data ! i)"
    if "i < length groups_data" for i
  proof -
    from lg that have "group_record (groups_data ! i) = Inr (go ! i)" by blast
    from group_record_fields[OF this] show ?thesis by (simp add: field_def)
  qed
  show ?thesis using fs' lu lg u g by blast
qed

theorem save_to_json_keeps_fields_witness:
  "fst (save_to_json no_files example_users example_groups) = None \<and>
   length (users_json (snd (save_to_json no_files example_users example_groups))) = 2 \<and>
   field ''last_active'' (users_json (snd (save_to_json no_files example_users example_groups)) ! 0)
     = JStr ''2024-01-01'' \<and>
   field ''description'' (groups_json (snd (save_to_json no_files example_users example_groups)) ! 0)
     = JStr ''Developers''"
proof -
  let ?fs = "snd (save_to_json no_files example_users example_groups)"
  from save_to_json_keeps_fields[OF example_run] obtain uo go where
    fs: "?fs = no_files(''users.json'' \<mapsto> JList uo, ''groups.json'' \<mapsto> JList go)" and
    len: "length uo = length example_users" and
    u: "\<forall>i<length example_users.
          field ''last_active'' (uo ! i) = field ''last_active_date'' (example_users ! i)" and
    g: "\<forall>i<length example_groups.
          field ''description'' (go ! i) = field ''description'' (example_groups ! i)"
    by blast
  have uj: "users_json ?fs = uo" and gj: "groups_json ?fs = go"
    unfolding fs by (simp_all add: users_json_def groups_json_def)
  have "field ''last_active'' (uo ! 0) = JStr ''2024-01-01''"
    using u by (simp add: example_users_def field_def)
  moreover have "field ''description'' (go ! 0) = JStr ''Developers''"
    using g by (simp add: example_groups_def field_def)
  moreover have "fst (save_to_json no_files example_users example_groups) = None"
    using example_run by (metis fst_conv)
  ultimately show ?thesis using len uj gj by (simp add: example_users_def)
qed

text \<open>
  Claim C5. Whenever \<^verbatim>\<open>save_to_json\<close> completes, the two files hold one record per
  input record: every record of users.json has exactly the fields id, name, email,
  last_active, status and groups (a list), in this order, and every record of groups.json
  has exactly the fields id, name, description and members, where members is the list of
  the display names of the group's members, one per member and in the members' order.
\<close>

theorem save_to_json_shapes:
  assumes "save_to_json fs users_data groups_data = (None, fs')"
  shows "\<exists>uo go. fs' = fs(''users.json'' \<mapsto> JList uo, ''groups.json'' \<mapsto> JList go) \<and>
           length uo = length users_data \<and> length go = length groups_data \<and>
           (\<forall>i<length users_data. \<exists>v_id v_name v_email v_last v_status names.
               uo ! i = JObj [(''id'', v_id), (''name'', v_name), (''email'', v_email),
                              (''last_active'', v_last), (''status'', v_status),
                              (''groups'', JList names)]) \<and>
           (\<forall>i<length groups_data. \<exists>v_id v_name v_descr.
               go ! i = JObj [(''id'', v_id), (''name'', v_name), (''description'', v_descr),
                              (''members'', JList (map (field ''displayName'')
                                                      (members_of (groups_data ! i))))])"
proof -
  from save_to_json_ok[OF assms] obtain m uo go where
    cu: "comprehension (user_record m) users_data = Inr uo" and
    cg: "comprehension group_record groups_data = Inr go" and
    fs': "fs' = fs(''users.json'' \<mapsto> JList uo, ''groups.json'' \<mapsto> JList go)"
    by blast
  note lu = comprehension_Inr[OF cu] and lg = comprehension_Inr[OF cg]
  have u: "\<exists>v_id v_name v_email v_last v_status names.
               uo ! i = JObj [(''id'', v_id), (''name'', v_name), (''email'', v_email),
                              (''last_active'', v_last), (''status'', v_status),
                              (''groups'', JList names)]"
    if "i < length users_data" for i
  proof -
    from lu that have "user_record m (users_data ! i) = Inr (uo ! i)" by blast
    from user_record_fields[OF this] show ?thesis by blast
  qed
  have g: "\<exists>v_id v_name v_descr.
               go ! i = JObj [(''id'', v_id), (''name'', v_name), (''description'', v_descr),
                              (''members'', JList (map (field ''displayName'')
                                                      (members_of (groups_data ! i))))]"
    if "i < length groups_data" for i
  proof -
    from lg that have "group_record (groups_data ! i) = Inr (go ! i)" by blast
    from group_record_fields[OF this] show ?thesis by blast
  qed
  show ?thesis using fs' lu lg u g by blast
qed

theorem save_to_json_shapes_witness:
  "fst (save_to_json no_files example_users example_groups) = None \<and>
   length (groups_json (snd (save_to_json no_files example_users example_groups))) = 1 \<and>
   field ''members'' (groups_json (snd (save_to_json no_files example_users example_groups)) ! 0)
     = JList [JStr ''Ann'', JStr ''Zed'']"
proof -
  let ?fs = "snd (save_to_json no_files example_users example_groups)"
  from save_to_json_shapes[OF example_run] obtain uo go where
    fs: "?fs = no_files(''users.json'' \<mapsto> JList uo, ''groups.json'' \<mapsto> JList go)" and
    len: "length go = length example_groups" and
    g: "\<forall>i<length example_groups. \<exists>v_id v_name v_descr.
               go ! i = JObj [(''id'', v_id), (''name'', v_name), (''description'', v_descr),
                              (''members'', JList (map (field ''displayName'')
                                                      (members_of (example_groups ! i))))]"
    by blast
  have gj: "groups_json ?fs = go"
    unfolding fs by (simp add: groups_json_def)
  from g have "\<exists>v_id v_name v_descr.
               go ! 0 = JObj [(''id'', v_id), (''name'', v_name), (''description'', v_descr),
                              (''members'', JList (map (field ''displayName'')
                                                      (members_of (example_groups ! 0))))]"
    by (simp add: example_groups_def)
  then have "field ''members'' (go ! 0) = JList (map (field ''displayName'') (members_of (example_groups ! 0)))"
    by (auto simp: field_def)
  then have "field ''members'' (go ! 0) = JList [JStr ''Ann'', JStr ''Zed'']"
    by (simp add: example_groups_def field_def members_of_def)
  moreover have "fst (save_to_json no_files example_users example_groups) = None"
    using example_run by (metis fst_conv)
  ultimately show ?thesis using len gj by (simp add: example_groups_def)
qed

text \<open>
  Claim C1. Whenever \<^verbatim>\<open>save_to_json\<close> completes: the membership index has an entry only
  for keys that are the (non-empty) accountId of a fetched user, so a member id that is no
  user's id has no entry; and every name in the groups list of a user of users.json is the
  name of a group that has a member whose id matches that user's accountId.
\<close>

theorem join_links_matching_ids_only:
  assumes "save_to_json fs users_data groups_data = (None, fs')"
  shows "\<exists>m uo. user_to_groups_map users_data groups_data = Inr m \<and>
           fs' ''users.json'' = Some (JList uo) \<and> length uo = length users_data \<and>
           (\<forall>k. m k \<noteq> None \<longrightarrow>
                (\<exists>u\<in>set users_data. truthy (field ''accountId'' u) \<and>
                     hash_key (field ''accountId'' u) = Some k)) \<and>
           (\<forall>i<length users_data. \<exists>names. field ''groups'' (uo ! i) = JList names \<and>
                (\<forall>n\<in>set names. \<exists>g\<in>set groups_data. field ''name'' g = n \<and>
                    (\<exists>member\<in>set (members_of g).
                        same_key (field ''id'' member) (field ''accountId'' (users_data ! i)))))"
proof -
  from save_to_json_ok[OF assms] obtain m uo go where
    m: "user_to_groups_map users_data groups_data = Inr m" and
    cu: "comprehension (user_record m) users_data = Inr uo" and
    fs': "fs' = fs(''users.json'' \<mapsto> JList uo, ''groups.json'' \<mapsto> JList go)"
    by blast
  note lu = comprehension_Inr[OF cu]
  have keys: "\<exists>u\<in>set users_data. truthy (field ''accountId'' u) \<and>
                 hash_key (field ''accountId'' u) = Some k" if "m k \<noteq> None" for k
    using that index_char[OF m, of k] by (auto split: if_splits)
  have u: "\<exists>names. field ''groups'' (uo ! i) = JList names \<and>
                (\<forall>n\<in>set names. \<exists>g\<in>set groups_data. field ''name'' g = n \<and>
                    (\<exists>member\<in>set (members_of g).
                        same_key (field ''id'' member) (field ''accountId'' (users_data ! i))))"
    if i: "i < length users_data" for i
  proof -
    let ?a = "field ''accountId'' (users_data ! i)"
    from lu i have "user_record m (users_data ! i) = Inr (uo ! i)" by blast
    from user_record_fields[OF this] obtain k where
      k: "hash_key ?a = Some k" and
      r: "uo ! i = JObj [(''id'', ?a), (''name'', field ''name'' (users_data ! i)),
                     (''email'', field ''email'' (users_data ! i)),
                     (''last_active'', field ''last_active_date'' (users_data ! i)),
                     (''status'', field ''status'' (users_data ! i)),
                     (''groups'', JList (case m k of None \<Rightarrow> [] | Some names \<Rightarrow> names))]"
      by blast
    have mem: "users_data ! i \<in> set users_data" using i by simp
    let ?names = "if truthy ?a then linked_names ?a groups_data else []"
    have "field ''groups'' (uo ! i) = JList ?names"
      using r index_lookup[OF m mem k] by (simp add: field_def)
    moreover have "\<exists>g\<in>set groups_data. field ''name'' g = n \<and>
                    (\<exists>member\<in>set (members_of g). same_key (field ''id'' member) ?a)"
      if "n \<in> set ?names" for n
      using that by (auto simp: linked_names_def split: if_splits)
    ultimately show ?thesis by blast
  qed
  have "fs' ''users.json'' = Some (JList uo)" using fs' by simp
  then show ?thesis using m lu keys u by blast
qed

theorem join_links_matching_ids_only_witness:
  "fst (save_to_json no_files example_users example_groups) = None \<and>
   user_to_groups_map example_users example_groups \<noteq> Inl TypeError \<and>
   (case user_to_groups_map example_users example_groups of
      Inr m \<Rightarrow> m (KStr ''u9'') = None \<and> m (KStr ''u1'') = Some [JStr ''devs'']
    | Inl e \<Rightarrow> False)"
proof -
  from join_links_matching_ids_only[OF example_run] obtain m where
    m: "user_to_groups_map example_users example_groups = Inr m" and
    keys: "\<forall>k. m k \<noteq> None \<longrightarrow> (\<exists>u\<in>set example_users. truthy (field ''accountId'' u) \<and>
             hash_key (field ''accountId'' u) = Some k)"
    by blast
  have "\<not> (\<exists>u\<in>set example_users. hash_key (field ''accountId'' u) = Some (KStr ''u9''))"
    by (simp add: example_users_def field_def)
  with keys have "m (KStr ''u9'') = None" by blast
  moreover have "m (KStr ''u1'') = Some [JStr ''devs'']"
    using m by (auto simp: example_simps)
  moreover have "fst (save_to_json no_files example_users example_groups) = None"
    using example_run by (metis fst_conv)
  ultimately show ?thesis using m by simp
qed


text \<open>
  A run in which a member is listed twice in a group, and in which a user and a member
  both carry the empty string as id.
\<close>

definition dup_users :: "json list" where
  "dup_users = [JObj [(''accountId'', JStr ''u1'')], JObj [(''accountId'', JStr [])]]"

definition dup_groups :: "json list" where
  "dup_groups =
     [JObj [(''name'', JStr ''devs''),
            (''members'', JList [JObj [(''id'', JStr ''u1'')], JObj [(''id'', JStr ''u1'')],
                                 JObj [(''id'', JStr [])]])]]"

lemma set_linked_names:
  "n \<in> set (linked_names a gs) \<longleftrightarrow>
     (\<exists>g\<in>set gs. field ''name'' g = n \<and> (\<exists>member\<in>set (members_of g). same_key (field ''id'' member) a))"
  by (auto simp: linked_names_def)

text \<open>
  Claim C4, as amended. Whenever \<^verbatim>\<open>save_to_json\<close> completes, for every user whose
  accountId is non-empty (truthy), the index entry of that id and the groups value written
  for the user are the list of group names, in the order of the groups, with one entry for
  every member entry whose id matches the accountId. So the list contains a name exactly
  when some group of that name has a member with the user's id; a name is repeated as
  often as such member entries occur.
\<close>

theorem membership_index_one_entry_per_member:
  assumes "save_to_json fs users_data groups_data = (None, fs')"
  shows "\<exists>m uo. user_to_groups_map users_data groups_data = Inr m \<and>
           fs' ''users.json'' = Some (JList uo) \<and> length uo = length users_data \<and>
           (\<forall>i<length users_data. truthy (field ''accountId'' (users_data ! i)) \<longrightarrow>
              (\<exists>k. hash_key (field ''accountId'' (users_data ! i)) = Some k \<and>
                   m k = Some (linked_names (field ''accountId'' (users_data ! i)) groups_data)) \<and>
              field ''groups'' (uo ! i) =
                JList (linked_names (field ''accountId'' (users_data ! i)) groups_data) \<and>
              (\<forall>n. n \<in> set (linked_names (field ''accountId'' (users_data ! i)) groups_data) \<longleftrightarrow>
                 (\<exists>g\<in>set groups_data. field ''name'' g = n \<and>
                    (\<exists>member\<in>set (members_of g).
                        same_key (field ''id'' member) (field ''accountId'' (users_data ! i))))))"
proof -
  from save_to_json_ok[OF assms] obtain m uo go where
    m: "user_to_groups_map users_data groups_data = Inr m" and
    cu: "comprehension (user_record m) users_data = Inr uo" and
    fs': "fs' = fs(''users.json'' \<mapsto> JList uo, ''groups.json'' \<mapsto> JList go)"
    by blast
  note lu = comprehension_Inr[OF cu]
  have u: "(\<exists>k. hash_key (field ''accountId'' (users_data ! i)) = Some k \<and>
                   m k = Some (linked_names (field ''accountId'' (users_data ! i)) groups_data)) \<and>
              field ''groups'' (uo ! i) =
                JList (linked_names (field ''accountId'' (users_data ! i)) groups_data)"
    if i: "i < length users_data" and t: "truthy (field ''accountId'' (users_data ! i))" for i
  proof -
    let ?a = "field ''accountId'' (users_data ! i)"
    from lu i have "user_record m (users_data ! i) = Inr (uo ! i)" by blast
    from user_record_fields[OF this] obtain k where
      k: "hash_key ?a = Some k" and
      r: "uo ! i = JObj [(''id'', ?a), (''name'', field ''name'' (users_data ! i)),
                     (''email'', field ''email'' (users_data ! i)),
                     (''last_active'', field ''last_active_date'' (users_data ! i)),
                     (''status'', field ''status'' (users_data ! i)),
                     (''groups'', JList (case m k of None \<Rightarrow> [] | Some names \<Rightarrow> names))]"
      by blast
    have mem: "users_data ! i \<in> set users_data" using i by simp
    have "m k = Some (names_at k groups_data)"
      using index_char[OF m, of k] mem t k by auto
    then have mk: "m k = Some (linked_names ?a groups_data)"
      using names_at_linked[OF k] by simp
    then have "field ''groups'' (uo ! i) = JList (linked_names ?a groups_data)"
      using r by (simp add: field_def)
    with k mk show ?thesis by blast
  qed
  have "fs' ''users.json'' = Some (JList uo)" using fs' by simp
  then show ?thesis using m lu u set_linked_names by blast
qed

lemma dup_run:
  "save_to_json no_files dup_users dup_groups =
     (None, snd (save_to_json no_files dup_users dup_groups))"
  by (simp add: dup_users_def dup_groups_def example_simps)

theorem membership_index_one_entry_per_member_witness:
  "fst (save_to_json no_files dup_users dup_groups) = None \<and>
   truthy (field ''accountId'' (dup_users ! 0)) \<and>
   field ''groups'' (users_json (snd (save_to_json no_files dup_users dup_groups)) ! 0) =
     JList (linked_names (JStr ''u1'') dup_groups)"
proof -
  let ?fs = "snd (save_to_json no_files dup_users dup_groups)"
  have t: "truthy (field ''accountId'' (dup_users ! 0))" and a: "field ''accountId'' (dup_users ! 0) = JStr ''u1''"
    by (simp_all add: dup_users_def field_def)
  from membership_index_one_entry_per_member[OF dup_run] obtain uo where
    fs: "?fs ''users.json'' = Some (JList uo)" and
    u: "\<forall>i<length dup_users. truthy (field ''accountId'' (dup_users ! i)) \<longrightarrow>
          field ''groups'' (uo ! i) = JList (linked_names (field ''accountId'' (dup_users ! i)) dup_groups)"
    by blast
  have "0 < length dup_users" by (simp add: dup_users_def)
  with u t a have "field ''groups'' (uo ! 0) = JList (linked_names (JStr ''u1'') dup_groups)" by metis
  moreover have "users_json ?fs = uo" using fs by (simp add: users_json_def)
  moreover have "fst (save_to_json no_files dup_users dup_groups) = None"
    using dup_run by (metis fst_conv)
  ultimately show ?thesis using t by simp
qed

text \<open>
  Claim C4 as stated fails: with the member u1 listed twice in the group devs, the groups
  list of user u1 is [devs, devs], which has a duplicate; and the user whose accountId is
  the empty string gets no group although devs has a member with that very id.
\<close>

theorem membership_index_duplicates_counterexample:
  "fst (save_to_json no_files dup_users dup_groups) = None \<and>
   field ''groups'' (users_json (snd (save_to_json no_files dup_users dup_groups)) ! 0) =
     JList [JStr ''devs'', JStr ''devs''] \<and>
   field ''groups'' (users_json (snd (save_to_json no_files dup_users dup_groups)) ! 1) = JList [] \<and>
   field ''name'' (dup_groups ! 0) = JStr ''devs'' \<and>
   same_key (field ''id'' (members_of (dup_groups ! 0) ! 2)) (field ''accountId'' (dup_users ! 1))"
  by (simp add: dup_users_def dup_groups_def example_simps)

text \<open>
  Claim C8, as amended. Whenever \<^verbatim>\<open>save_to_json\<close> completes, a user whose accountId is
  missing, \<^verbatim>\<open>None\<close> or otherwise falsy has no entry in the membership index, and its
  record in users.json carries the accountId as it came (null only when it was missing or
  \<^verbatim>\<open>None\<close>) as id and the empty list as groups.
\<close>

theorem falsy_account_id_not_linked:
  assumes "save_to_json fs users_data groups_data = (None, fs')"
    and "i < length users_data"
    and "\<not> truthy (field ''accountId'' (users_data ! i))"
  shows "\<exists>m uo k. user_to_groups_map users_data groups_data = Inr m \<and>
           hash_key (field ''accountId'' (users_data ! i)) = Some k \<and> m k = None \<and>
           fs' ''users.json'' = Some (JList uo) \<and> length uo = length users_data \<and>
           field ''id'' (uo ! i) = field ''accountId'' (users_data ! i) \<and>
           field ''groups'' (uo ! i) = JList []"
proof -
  let ?a = "field ''accountId'' (users_data ! i)"
  from save_to_json_ok[OF assms(1)] obtain m uo go where
    m: "user_to_groups_map users_data groups_data = Inr m" and
    cu: "comprehension (user_record m) users_data = Inr uo" and
    fs': "fs' = fs(''users.json'' \<mapsto> JList uo, ''groups.json'' \<mapsto> JList go)"
    by blast
  note lu = comprehension_Inr[OF cu]
  from lu assms(2) have "user_record m (users_data ! i) = Inr (uo ! i)" by blast
  from user_record_fields[OF this] obtain k where
    k: "hash_key ?a = Some k" and
    r: "uo ! i = JObj [(''id'', ?a), (''name'', field ''name'' (users_data ! i)),
                   (''email'', field ''email'' (users_data ! i)),
                   (''last_active'', field ''last_active_date'' (users_data ! i)),
                   (''status'', field ''status'' (users_data ! i)),
                   (''groups'', JList (case m k of None \<Rightarrow> [] | Some names \<Rightarrow> names))]"
    by blast
  have "\<not> (\<exists>v\<in>set users_data. truthy (field ''accountId'' v) \<and> hash_key (field ''accountId'' v) = Some k)"
    using assms(3) key_truthy[OF k] by blast
  with index_char[OF m, of k] have mk: "m k = None" by metis
  have "field ''id'' (uo ! i) = ?a" "field ''groups'' (uo ! i) = JList []"
    using r mk by (simp_all add: field_def)
  moreover have "fs' ''users.json'' = Some (JList uo)" using fs' by simp
  ultimately show ?thesis using m k mk lu by blast
qed

theorem falsy_account_id_not_linked_witness:
  "fst (save_to_json no_files example_users example_groups) = None \<and>
   (1::nat) < length example_users \<and>
   \<not> truthy (field ''accountId'' (example_users ! 1)) \<and>
   field ''id'' (users_json (snd (save_to_json no_files example_users example_groups)) ! 1) = JNull \<and>
   field ''groups'' (users_json (snd (save_to_json no_files example_users example_groups)) ! 1) = JList []"
proof -
  let ?fs = "snd (save_to_json no_files example_users example_groups)"
  have l: "(1::nat) < length example_users"
    and t: "\<not> truthy (field ''accountId'' (example_users ! 1))"
    and a: "field ''accountId'' (example_users ! 1) = JNull"
    by (simp_all add: example_users_def field_def)
  from falsy_account_id_not_linked[OF example_run l t] obtain uo where
    fs: "?fs ''users.json'' = Some (JList uo)" and
    u: "field ''id'' (uo ! 1) = field ''accountId'' (example_users ! 1)"
       "field ''groups'' (uo ! 1) = JList []"
    by blast
  have "users_json ?fs = uo" using fs by (simp add: users_json_def)
  moreover have "fst (save_to_json no_files example_users example_groups) = None"
    using example_run by (metis fst_conv)
  ultimately show ?thesis using l t a u by simp
qed

text \<open>
  Claim C8 as stated fails: the user whose accountId is the empty string is written with
  id \<^verbatim>\<open>""\<close>, not with id null.
\<close>

theorem falsy_account_id_counterexample:
  "fst (save_to_json no_files dup_users dup_groups) = None \<and>
   \<not> truthy (field ''accountId'' (dup_users ! 1)) \<and>
   field ''id'' (users_json (snd (save_to_json no_files dup_users dup_groups)) ! 1) = JStr [] \<and>
   field ''id'' (users_json (snd (save_to_json no_files dup_users dup_groups)) ! 1) \<noteq> JNull"
  by (simp add: dup_users_def dup_groups_def example_simps)

section \<open>The pagination fetchers of login.py\<close>

text \<open>
  The requests that login.py sends with \<^verbatim>\<open>page.request.get\<close>. A request is identified by its
  endpoint and the parameters that the script formats into the URL: the URL itself for the
  users endpoint (the first one is fixed, the later ones are the next links the server
  sent), the group id, count and start-index for the members of a group, and count and
  start-index for the list of groups.
\<close>

datatype request =
    GetUsers json
  | GetGroupMembers json int int
  | GetGroups int int

text \<open>
  The server is the sequence of its responses: \<open>srv i\<close> is what request number \<open>i\<close> of a run
  (counted from 0 over all requests of the run) evaluates to after \<^verbatim>\<open>.json()\<close>, a decoded
  document or the exception raised by the request or by the decoding. The state that the
  fetchers thread through is the list of the requests sent so far; a fetcher returns its
  result, or the exception that left it, together with that list.
\<close>

type_synonym response = "py_error + json"
type_synonym server = "nat \<Rightarrow> response"
type_synonym 'a outcome = "(py_error + 'a) \<times> request list"

text \<open>
  A loop \<^verbatim>\<open>while ...:\<close> whose body, run in a state, either leaves the loop with a result
  (\<open>Inl\<close>: a \<^verbatim>\<open>break\<close>, a loop condition that fails, an exception), or ends in the state of the
  next round (\<open>Inr\<close>), or does not return (\<open>None\<close>). The loop may run forever: then its
  value is \<open>None\<close>.
\<close>

partial_function (option) while_true :: "('s \<Rightarrow> ('r + 's) option) \<Rightarrow> 's \<Rightarrow> 'r option" where
  "while_true body s =
     (case body s of
        None \<Rightarrow> None
      | Some (Inl r) \<Rightarrow> Some r
      | Some (Inr s') \<Rightarrow> while_true body s')"

text \<open>
  \<open>iteration body k s\<close> is the state at the beginning of round \<open>k\<close> (counted from 0) of the
  loop started in \<open>s\<close>, if the loop gets that far.
\<close>

primrec iteration :: "('s \<Rightarrow> ('r + 's) option) \<Rightarrow> nat \<Rightarrow> 's \<Rightarrow> 's option" where
  "iteration body 0 s = Some s"
| "iteration body (Suc k) s =
     (case iteration body k s of
        None \<Rightarrow> None
      | Some s' \<Rightarrow> (case body s' of Some (Inr s'') \<Rightarrow> Some s'' | _ \<Rightarrow> None))"

lemma iteration_Suc_head:
  "iteration body (Suc k) s = (case body s of Some (Inr s') \<Rightarrow> iteration body k s' | _ \<Rightarrow> None)"
proof (induction k)
  case 0
  then show ?case by (simp split: option.splits sum.splits)
next
  case (Suc k)
  have "iteration body (Suc (Suc k)) s =
          (case iteration body (Suc k) s of None \<Rightarrow> None
           | Some s' \<Rightarrow> (case body s' of Some (Inr s'') \<Rightarrow> Some s'' | _ \<Rightarrow> None))"
    by simp
  also have "\<dots> = (case body s of Some (Inr s') \<Rightarrow> iteration body (Suc k) s' | _ \<Rightarrow> None)"
    unfolding Suc.IH by (simp split: option.splits sum.splits)
  finally show ?case .
qed


lemma while_true_Some:
  fixes body :: "'s \<Rightarrow> ('r + 's) option"
  assumes "while_true body s = Some r"
  shows "\<exists>k s'. iteration body k s = Some s' \<and> body s' = Some (Inl r)"
proof (rule while_true.raw_induct[where P = "\<lambda>body s r. \<exists>k s'. iteration body k s = Some s' \<and> body s' = Some (Inl r)", OF _ assms])
  fix f :: "('s \<Rightarrow> ('r + 's) option) \<Rightarrow> 's \<Rightarrow> 'r option"
    and body :: "'s \<Rightarrow> ('r + 's) option" and s :: 's and r :: 'r
  assume IH: "\<And>body s r. f body s = Some r \<Longrightarrow> \<exists>k s'. iteration body k s = Some s' \<and> body s' = Some (Inl r)"
    and eq: "(case body s of None \<Rightarrow> None | Some (Inl r) \<Rightarrow> Some r | Some (Inr s') \<Rightarrow> f body s') = Some r"
  show "\<exists>k s'. iteration body k s = Some s' \<and> body s' = Some (Inl r)"
  proof (cases "body s")
    case None
    with eq show ?thesis by simp
  next
    case (Some a)
    show ?thesis
    proof (cases a)
      case (Inl r')
      with Some eq have "r' = r" by simp
      with Some Inl have "iteration body 0 s = Some s \<and> body s = Some (Inl r)" by simp
      then show ?thesis by blast
    next
      case (Inr s1)
      with Some eq have "f body s1 = Some r" by simp
      from IH[OF this] obtain k s' where "iteration body k s1 = Some s'" "body s' = Some (Inl r)" by blast
      with Some Inr have "iteration body (Suc k) s = Some s' \<and> body s' = Some (Inl r)"
        unfolding iteration_Suc_head by simp
      then show ?thesis by blast
    qed
  qed
qed


text \<open>
  \<^verbatim>\<open>fetch_users\<close>: one round of \<^verbatim>\<open>while next_url:\<close>, and the loop from the fixed first URL.
\<close>

definition users_url :: string where
  "users_url = ''https://admin.atlassian.com/gateway/api/admin/v2/orgs/e487b234-1e3a-4c58-b4b2-1343fcb828b8/directories/-/users?limit=100''"

definition fetch_users_step ::
  "server \<Rightarrow> request list \<times> json list \<times> json
     \<Rightarrow> (json list outcome) + (request list \<times> json list \<times> json)" where
  "fetch_users_step srv st =
     (case st of (reqs, all_users, next_url) \<Rightarrow>
        if \<not> truthy next_url then Inl (Inr all_users, reqs)
        else
          let reqs' = reqs @ [GetUsers next_url] in
          (case srv (length reqs) of Inl e \<Rightarrow> Inl (Inl e, reqs') | Inr data \<Rightarrow>
           case py_get data ''data'' (JList []) of Inl e \<Rightarrow> Inl (Inl e, reqs') | Inr page \<Rightarrow>
           case py_iter page of Inl e \<Rightarrow> Inl (Inl e, reqs') | Inr users \<Rightarrow>
           case py_get data ''links'' (JObj []) of Inl e \<Rightarrow> Inl (Inl e, reqs') | Inr links \<Rightarrow>
           case py_get links ''next'' JNull of Inl e \<Rightarrow> Inl (Inl e, reqs') | Inr next_url' \<Rightarrow>
             Inr (reqs', all_users @ users, next_url')))"

definition fetch_users :: "server \<Rightarrow> request list \<Rightarrow> json list outcome option" where
  "fetch_users srv reqs =
     while_true (\<lambda>st. Some (fetch_users_step srv st)) (reqs, [], JStr users_url)"

text \<open>
  \<^verbatim>\<open>fetch_group_members\<close>: one round of its \<^verbatim>\<open>while True:\<close>, and the loop with
  \<^verbatim>\<open>start_index = 1\<close> and \<^verbatim>\<open>count = 50\<close>.
\<close>

definition fetch_group_members_step ::
  "server \<Rightarrow> json \<Rightarrow> int \<Rightarrow> request list \<times> json list \<times> int
     \<Rightarrow> (json list outcome) + (request list \<times> json list \<times> int)" where
  "fetch_group_members_step srv group_id count st =
     (case st of (reqs, all_members, start_index) \<Rightarrow>
        let reqs' = reqs @ [GetGroupMembers group_id count start_index] in
        (case srv (length reqs) of Inl e \<Rightarrow> Inl (Inl e, reqs') | Inr data \<Rightarrow>
         case py_get data ''users'' (JList []) of Inl e \<Rightarrow> Inl (Inl e, reqs') | Inr members_on_page \<Rightarrow>
           if \<not> truthy members_on_page then Inl (Inr all_members, reqs')
           else
             (case py_iter members_on_page of Inl e \<Rightarrow> Inl (Inl e, reqs') | Inr members \<Rightarrow>
                Inr (reqs', all_members @ members, start_index + count))))"

definition fetch_group_members :: "server \<Rightarrow> json \<Rightarrow> request list \<Rightarrow> json list outcome option" where
  "fetch_group_members srv group_id reqs =
     while_true (\<lambda>st. Some (fetch_group_members_step srv group_id 50 st)) (reqs, [], 1)"

text \<open>
  \<^verbatim>\<open>fetch_groups\<close>: the \<^verbatim>\<open>for\<close> loop that fetches and attaches the members of every
  group of a page (\<^verbatim>\<open>group['name']\<close> is read for the progress message), one round of the
  \<^verbatim>\<open>while True:\<close>, and the loop with \<^verbatim>\<open>start_index = 1\<close> and \<^verbatim>\<open>count = 20\<close>.
\<close>

fun attach_members :: "server \<Rightarrow> json list \<Rightarrow> request list \<Rightarrow> json list outcome option" where
  "attach_members srv [] reqs = Some (Inr [], reqs)"
| "attach_members srv (grp # groups_on_page) reqs =
     (case py_getitem grp ''name'' of Inl e \<Rightarrow> Some (Inl e, reqs) | Inr group_name \<Rightarrow>
      case py_getitem grp ''id'' of Inl e \<Rightarrow> Some (Inl e, reqs) | Inr group_id \<Rightarrow>
      case fetch_group_members srv group_id reqs of
        None \<Rightarrow> None
      | Some (Inl e, reqs') \<Rightarrow> Some (Inl e, reqs')
      | Some (Inr members, reqs') \<Rightarrow>
          (case py_setitem grp ''members'' (JList members) of
             Inl e \<Rightarrow> Some (Inl e, reqs')
           | Inr grp' \<Rightarrow>
               (case attach_members srv groups_on_page reqs' of
                  None \<Rightarrow> None
                | Some (Inl e, reqs'') \<Rightarrow> Some (Inl e, reqs'')
                | Some (Inr rest, reqs'') \<Rightarrow> Some (Inr (grp' # rest), reqs''))))"

definition fetch_groups_step ::
  "server \<Rightarrow> int \<Rightarrow> request list \<times> json list \<times> int
     \<Rightarrow> ((json list outcome) + (request list \<times> json list \<times> int)) option" where
  "fetch_groups_step srv count st =
     (case st of (reqs, all_groups, start_index) \<Rightarrow>
        let reqs' = reqs @ [GetGroups count start_index] in
        (case srv (length reqs) of Inl e \<Rightarrow> Some (Inl (Inl e, reqs')) | Inr data \<Rightarrow>
         case py_get data ''groups'' (JList []) of Inl e \<Rightarrow> Some (Inl (Inl e, reqs')) | Inr groups_on_page \<Rightarrow>
           if \<not> truthy groups_on_page then Some (Inl (Inr all_groups, reqs'))
           else
             (case py_iter groups_on_page of Inl e \<Rightarrow> Some (Inl (Inl e, reqs')) | Inr groups \<Rightarrow>
              case attach_members srv groups reqs' of
                None \<Rightarrow> None
              | Some (Inl e, reqs'') \<Rightarrow> Some (Inl (Inl e, reqs''))
              | Some (Inr groups', reqs'') \<Rightarrow>
                  Some (Inr (reqs'', all_groups @ groups', start_index + count)))))"

definition fetch_groups :: "server \<Rightarrow> request list \<Rightarrow> json list outcome option" where
  "fetch_groups srv reqs = while_true (fetch_groups_step srv 20) (reqs, [], 1)"

text \<open>
  What a response carries for a loop. \<open>page_of key r\<close> is the page body
  \<^verbatim>\<open>data.get(key, [])\<close>; \<open>page_records\<close> are the records on it; the page is empty when the
  body is missing or falsy, and full when it is truthy and can be run through.
\<close>

definition page_of :: "string \<Rightarrow> response \<Rightarrow> py_error + json" where
  "page_of key r = (case r of Inl e \<Rightarrow> Inl e | Inr data \<Rightarrow> py_get data key (JList []))"

definition page_records :: "string \<Rightarrow> response \<Rightarrow> json list" where
  "page_records key r =
     (case page_of key r of
        Inl e \<Rightarrow> []
      | Inr p \<Rightarrow> (case py_iter p of Inl e \<Rightarrow> [] | Inr xs \<Rightarrow> xs))"

definition empty_page :: "string \<Rightarrow> response \<Rightarrow> bool" where
  "empty_page key r = (case page_of key r of Inl e \<Rightarrow> False | Inr p \<Rightarrow> \<not> truthy p)"

definition full_page :: "string \<Rightarrow> response \<Rightarrow> bool" where
  "full_page key r =
     (case page_of key r of
        Inl e \<Rightarrow> False
      | Inr p \<Rightarrow> truthy p \<and> (case py_iter p of Inl e \<Rightarrow> False | Inr xs \<Rightarrow> True))"

lemma py_iter_falsy: "\<not> truthy p \<Longrightarrow> py_iter p = Inr xs \<Longrightarrow> xs = []"
  by (cases p) auto

lemma empty_page_records: "empty_page key r \<Longrightarrow> page_records key r = []"
  by (auto simp: empty_page_def page_records_def split: sum.splits dest: py_iter_falsy)

lemma empty_not_full: "empty_page key r \<Longrightarrow> \<not> full_page key r"
  by (auto simp: empty_page_def full_page_def split: sum.splits)

lemma iteration_SucE:
  assumes "iteration body (Suc k) s = Some s''"
  obtains s' where "iteration body k s = Some s'" and "body s' = Some (Inr s'')"
  using assms by (auto split: option.splits sum.splits)

lemma iteration_SucI:
  "iteration body k s = Some s' \<Longrightarrow> body s' = Some (Inr s'') \<Longrightarrow> iteration body (Suc k) s = Some s''"
  by simp

subsection \<open>Facts about \<^verbatim>\<open>fetch_group_members\<close>\<close>

lemma members_step_Inr:
  assumes "fetch_group_members_step srv gid c (reqs, acc, si) = Inr (reqs1, acc1, si1)"
  shows "reqs1 = reqs @ [GetGroupMembers gid c si] \<and> si1 = si + c \<and>
         acc1 = acc @ page_records ''users'' (srv (length reqs)) \<and>
         full_page ''users'' (srv (length reqs))"
  using assms
  by (auto simp: fetch_group_members_step_def Let_def page_records_def full_page_def page_of_def
           split: sum.splits if_splits)

lemma members_step_Inl:
  assumes "fetch_group_members_step srv gid c (reqs, acc, si) = Inl (r, reqs1)"
  shows "reqs1 = reqs @ [GetGroupMembers gid c si] \<and> \<not> full_page ''users'' (srv (length reqs)) \<and>
         (\<forall>xs. r = Inr xs \<longrightarrow> xs = acc \<and> empty_page ''users'' (srv (length reqs)))"
  using assms
  by (auto simp: fetch_group_members_step_def Let_def empty_page_def full_page_def page_of_def
           split: sum.splits if_splits)



lemma members_iteration:
  assumes "iteration (\<lambda>st. Some (fetch_group_members_step srv gid c st)) k (reqs, acc, si) =
             Some (reqs', acc', si')"
  shows "reqs' = reqs @ map (\<lambda>j. GetGroupMembers gid c (si + c * int j)) [0..<k] \<and>
         si' = si + c * int k \<and>
         acc' = acc @ concat (map (\<lambda>i. page_records ''users'' (srv i)) [length reqs..<length reqs + k]) \<and>
         (\<forall>j<k. full_page ''users'' (srv (length reqs + j)))"
  using assms
proof (induction k arbitrary: reqs' acc' si')
  case 0
  then show ?case by simp
next
  case (Suc k)
  from Suc.prems obtain st where
    it: "iteration (\<lambda>st. Some (fetch_group_members_step srv gid c st)) k (reqs, acc, si) = Some st"
    and st: "Some (fetch_group_members_step srv gid c st) = Some (Inr (reqs', acc', si'))"
    by (rule iteration_SucE)
  obtain reqs0 acc0 si0 where st0: "st = (reqs0, acc0, si0)" by (cases st)
  note ih = Suc.IH[OF it[unfolded st0]]
  from st st0 have "fetch_group_members_step srv gid c (reqs0, acc0, si0) = Inr (reqs', acc', si')"
    by simp
  note step = members_step_Inr[OF this]
  have len: "length reqs0 = length reqs + k" using ih by simp
  have "\<forall>j<Suc k. full_page ''users'' (srv (length reqs + j))"
    using ih step len by (auto simp: less_Suc_eq)
  moreover have "si' = si + c * int (Suc k)" using ih step by (simp add: algebra_simps)
  moreover have "reqs' = reqs @ map (\<lambda>j. GetGroupMembers gid c (si + c * int j)) [0..<Suc k]"
    using ih step by simp
  moreover have "acc' = acc @ concat (map (\<lambda>i. page_records ''users'' (srv i)) [length reqs..<length reqs + Suc k])"
    using ih step len by simp
  ultimately show ?case by blast
qed



lemma fetch_group_members_result:
  assumes "fetch_group_members srv gid reqs = Some (r, reqs')"
  shows "\<exists>k. reqs' = reqs @ map (\<lambda>j. GetGroupMembers gid 50 (1 + 50 * int j)) [0..<Suc k] \<and>
             (\<forall>j<k. full_page ''users'' (srv (length reqs + j))) \<and>
             \<not> full_page ''users'' (srv (length reqs + k)) \<and>
             (\<forall>xs. r = Inr xs \<longrightarrow>
                  empty_page ''users'' (srv (length reqs + k)) \<and>
                  xs = concat (map (\<lambda>i. page_records ''users'' (srv i)) [length reqs..<length reqs']))"
proof -
  from assms have "while_true (\<lambda>st. Some (fetch_group_members_step srv gid 50 st)) (reqs, [], 1) = Some (r, reqs')"
    by (simp add: fetch_group_members_def)
  from while_true_Some[OF this] obtain k st where
    it: "iteration (\<lambda>st. Some (fetch_group_members_step srv gid 50 st)) k (reqs, [], 1) = Some st"
    and ex: "Some (fetch_group_members_step srv gid 50 st) = Some (Inl (r, reqs'))"
    by blast
  obtain reqs0 acc0 si0 where st0: "st = (reqs0, acc0, si0)" by (cases st)
  note inv = members_iteration[OF it[unfolded st0]]
  from ex st0 have "fetch_group_members_step srv gid 50 (reqs0, acc0, si0) = Inl (r, reqs')" by simp
  note fin = members_step_Inl[OF this]
  have len: "length reqs0 = length reqs + k" using inv by simp
  have a: "reqs' = reqs @ map (\<lambda>j. GetGroupMembers gid 50 (1 + 50 * int j)) [0..<Suc k]"
    using inv fin by simp
  have b: "\<not> full_page ''users'' (srv (length reqs + k))" using fin len by simp
  have c: "empty_page ''users'' (srv (length reqs + k)) \<and>
           xs = concat (map (\<lambda>i. page_records ''users'' (srv i)) [length reqs..<length reqs'])"
    if "r = Inr xs" for xs
  proof -
    from fin that have e: "empty_page ''users'' (srv (length reqs + k))" and x: "xs = acc0"
      using len by simp_all
    have "length reqs' = length reqs + Suc k" using a by simp
    then have "concat (map (\<lambda>i. page_records ''users'' (srv i)) [length reqs..<length reqs']) =
          concat (map (\<lambda>i. page_records ''users'' (srv i)) [length reqs..<length reqs + k])"
      using empty_page_records[OF e] by simp
    with inv x e show ?thesis by simp
  qed
  show ?thesis using a b c inv by blast
qed

subsection \<open>Facts about \<^verbatim>\<open>fetch_users\<close>\<close>

text \<open>
  The next link \<^verbatim>\<open>data.get("links", {}).get("next", None)\<close> of a response that
  \<^verbatim>\<open>fetch_users\<close> can process; a response has a next link when that value is truthy, and
  has none when it is missing, \<^verbatim>\<open>None\<close> or otherwise falsy.
\<close>

definition next_link :: "response \<Rightarrow> py_error + json" where
  "next_link r =
     (case r of Inl e \<Rightarrow> Inl e | Inr data \<Rightarrow>
      case py_get data ''data'' (JList []) of Inl e \<Rightarrow> Inl e | Inr page \<Rightarrow>
      case py_iter page of Inl e \<Rightarrow> Inl e | Inr users \<Rightarrow>
      case py_get data ''links'' (JObj []) of Inl e \<Rightarrow> Inl e | Inr links \<Rightarrow>
        py_get links ''next'' JNull)"

definition has_next :: "response \<Rightarrow> bool" where
  "has_next r = (case next_link r of Inl e \<Rightarrow> False | Inr n \<Rightarrow> truthy n)"

definition no_next :: "response \<Rightarrow> bool" where
  "no_next r = (case next_link r of Inl e \<Rightarrow> False | Inr n \<Rightarrow> \<not> truthy n)"

lemma users_step_stop:
  "\<not> truthy url \<Longrightarrow> fetch_users_step srv (reqs, acc, url) = Inl (Inr acc, reqs)"
  by (simp add: fetch_users_step_def)

lemma users_step_ok:
  assumes "truthy url" and "next_link (srv (length reqs)) = Inr n"
  shows "fetch_users_step srv (reqs, acc, url) =
           Inr (reqs @ [GetUsers url], acc @ page_records ''data'' (srv (length reqs)), n)"
  using assms
  by (auto simp: fetch_users_step_def next_link_def page_records_def page_of_def Let_def
           split: sum.splits)

lemma users_step_err:
  assumes "truthy url" and "next_link (srv (length reqs)) = Inl e"
  shows "fetch_users_step srv (reqs, acc, url) = Inl (Inl e, reqs @ [GetUsers url])"
  using assms
  by (auto simp: fetch_users_step_def next_link_def Let_def split: sum.splits)

lemma users_step_Inr:
  assumes "fetch_users_step srv (reqs, acc, url) = Inr (reqs1, acc1, url1)"
  shows "truthy url \<and> reqs1 = reqs @ [GetUsers url] \<and>
         acc1 = acc @ page_records ''data'' (srv (length reqs)) \<and>
         next_link (srv (length reqs)) = Inr url1"
proof -
  have t: "truthy url" using assms users_step_stop[of url srv reqs acc] by auto
  show ?thesis
  proof (cases "next_link (srv (length reqs))")
    case (Inl e)
    from users_step_err[where srv=srv and reqs="reqs" and acc="acc", OF t Inl] assms show ?thesis by simp
  next
    case (Inr n)
    from users_step_ok[where srv=srv and reqs="reqs" and acc="acc", OF t Inr] assms t Inr show ?thesis by simp
  qed
qed

lemma users_step_Inl:
  assumes "fetch_users_step srv (reqs, acc, url) = Inl (r, reqs1)"
  shows "(truthy url \<longrightarrow> reqs1 = reqs @ [GetUsers url] \<and>
            (\<exists>e. next_link (srv (length reqs)) = Inl e \<and> r = Inl e)) \<and>
         (\<not> truthy url \<longrightarrow> r = Inr acc \<and> reqs1 = reqs)"
proof (cases "truthy url")
  case False
  with users_step_stop[OF False, of srv reqs acc] assms show ?thesis by simp
next
  case True
  show ?thesis
  proof (cases "next_link (srv (length reqs))")
    case (Inl e)
    from users_step_err[where srv=srv and reqs="reqs" and acc="acc", OF True Inl] assms True Inl show ?thesis by simp
  next
    case (Inr n)
    from users_step_ok[where srv=srv and reqs="reqs" and acc="acc", OF True Inr] assms show ?thesis by simp
  qed
qed

lemma has_next_iff: "has_next r \<longleftrightarrow> (\<exists>n. next_link r = Inr n \<and> truthy n)"
  by (auto simp: has_next_def split: sum.splits)

lemma no_next_iff: "no_next r \<longleftrightarrow> (\<exists>n. next_link r = Inr n \<and> \<not> truthy n)"
  by (auto simp: no_next_def split: sum.splits)

lemma users_iteration:
  assumes "iteration (\<lambda>st. Some (fetch_users_step srv st)) k (reqs, acc, url) = Some (reqs', acc', url')"
  shows "length reqs' = length reqs + k \<and> take (length reqs) reqs' = reqs \<and>
         acc' = acc @ concat (map (\<lambda>i. page_records ''data'' (srv i)) [length reqs..<length reqs + k]) \<and>
         (\<forall>j. Suc j < k \<longrightarrow> has_next (srv (length reqs + j))) \<and>
         (case k of 0 \<Rightarrow> url' = url | Suc j \<Rightarrow> next_link (srv (length reqs + j)) = Inr url')"
  using assms
proof (induction k arbitrary: reqs' acc' url')
  case 0
  then show ?case by simp
next
  case (Suc k)
  from Suc.prems obtain st where
    it: "iteration (\<lambda>st. Some (fetch_users_step srv st)) k (reqs, acc, url) = Some st"
    and st: "Some (fetch_users_step srv st) = Some (Inr (reqs', acc', url'))"
    by (rule iteration_SucE)
  obtain reqs0 acc0 url0 where st0: "st = (reqs0, acc0, url0)" by (cases st)
  note ih = Suc.IH[OF it[unfolded st0]]
  from st st0 have "fetch_users_step srv (reqs0, acc0, url0) = Inr (reqs', acc', url')" by simp
  note step = users_step_Inr[OF this]
  have len: "length reqs0 = length reqs + k" using ih by simp
  have a: "length reqs' = length reqs + Suc k" using step len by simp
  have b: "take (length reqs) reqs' = reqs" using step ih len by simp
  have c: "acc' = acc @ concat (map (\<lambda>i. page_records ''data'' (srv i)) [length reqs..<length reqs + Suc k])"
    using ih step len by simp
  have d: "has_next (srv (length reqs + j))" if "Suc j < Suc k" for j
  proof (cases "Suc j < k")
    case True
    with ih show ?thesis by blast
  next
    case False
    with that have k: "k = Suc j" by simp
    with ih have "next_link (srv (length reqs + j)) = Inr url0" by simp
    with step show ?thesis by (auto simp: has_next_iff)
  qed
  have e: "next_link (srv (length reqs + k)) = Inr url'" using step len by simp
  show ?case using a b c d e by simp
qed


lemma users_url_truthy: "truthy (JStr users_url)"
  by (simp add: users_url_def)


lemma fetch_users_result:
  assumes "fetch_users srv reqs = Some (r, reqs')"
  shows "length reqs < length reqs' \<and> take (length reqs) reqs' = reqs \<and>
         \<not> has_next (srv (length reqs' - 1)) \<and>
         (\<forall>i. length reqs \<le> i \<and> Suc i < length reqs' \<longrightarrow> has_next (srv i)) \<and>
         (\<forall>xs. r = Inr xs \<longrightarrow> no_next (srv (length reqs' - 1)) \<and>
              xs = concat (map (\<lambda>i. page_records ''data'' (srv i)) [length reqs..<length reqs']))"
proof -
  let ?body = "\<lambda>st. Some (fetch_users_step srv st)"
  from assms have "while_true ?body (reqs, [], JStr users_url) = Some (r, reqs')"
    by (simp add: fetch_users_def)
  from while_true_Some[OF this] obtain k st where
    it: "iteration ?body k (reqs, [], JStr users_url) = Some st"
    and ex: "?body st = Some (Inl (r, reqs'))"
    by blast
  obtain reqs0 acc0 url0 where st0: "st = (reqs0, acc0, url0)" by (cases st)
  note inv = users_iteration[OF it[unfolded st0]]
  from ex st0 have "fetch_users_step srv (reqs0, acc0, url0) = Inl (r, reqs')" by simp
  note fin = users_step_Inl[OF this]
  have len: "length reqs0 = length reqs + k" using inv by simp
  have hn: "has_next (srv (length reqs + j))" if "Suc j < k" for j using inv that by blast
  show ?thesis
  proof (cases "truthy url0")
    case True
    with fin obtain e where r: "r = Inl e" and reqs': "reqs' = reqs0 @ [GetUsers url0]"
      and nl: "next_link (srv (length reqs0)) = Inl e" by blast
    have l: "length reqs' = length reqs + Suc k" using reqs' len by simp
    have "\<not> has_next (srv (length reqs' - 1))" using nl l len by (simp add: has_next_iff)
    moreover have "has_next (srv i)" if "length reqs \<le> i \<and> Suc i < length reqs'" for i
    proof (cases "Suc (i - length reqs) < k")
      case True
      from hn[OF True] that show ?thesis by simp
    next
      case False
      with that l have i: "i = length reqs + (k - 1)" and k: "0 < k" by auto
      then obtain j where j: "k = Suc j" by (cases k) auto
      with inv have "next_link (srv (length reqs + j)) = Inr url0" by simp
      with True i j show ?thesis by (simp add: has_next_iff)
    qed
    moreover have "take (length reqs) reqs' = reqs" using reqs' inv len by simp
    ultimately show ?thesis using r l by simp
  next
    case False
    with fin have r: "r = Inr acc0" and reqs': "reqs' = reqs0" by simp_all
    from False inv users_url_truthy obtain j where j: "k = Suc j" by (cases k) auto
    with inv have nl: "next_link (srv (length reqs + j)) = Inr url0" by simp
    have l: "length reqs' = length reqs + Suc j" using reqs' len j by simp
    have nn: "no_next (srv (length reqs' - 1))" using nl False l by (simp add: no_next_iff)
    then have "\<not> has_next (srv (length reqs' - 1))" by (auto simp: no_next_iff has_next_iff)
    moreover have "has_next (srv i)" if "length reqs \<le> i \<and> Suc i < length reqs'" for i
    proof -
      from that l j have "Suc (i - length reqs) < k" by linarith
      from hn[OF this] that show ?thesis by simp
    qed
    moreover have "acc0 = concat (map (\<lambda>i. page_records ''data'' (srv i)) [length reqs..<length reqs'])"
      using inv l j by simp
    moreover have "take (length reqs) reqs' = reqs" using reqs' inv by simp
    ultimately show ?thesis using r nn l by simp
  qed
qed

subsection \<open>Facts about \<^verbatim>\<open>fetch_groups\<close>\<close>

text \<open>
  \<open>groups_pages srv i reqs\<close> are the records of the pages that answered the group-list
  requests among \<open>reqs\<close>, the first of which is request number \<open>i\<close>;
  \<open>without_members\<close> drops the members field of a record; a record has its members attached
  when its members field is a list that \<^verbatim>\<open>fetch_group_members\<close> returned for its id.
\<close>

fun is_groups_request :: "request \<Rightarrow> bool" where
  "is_groups_request (GetGroups c i) = True"
| "is_groups_request _ = False"

fun groups_pages :: "server \<Rightarrow> nat \<Rightarrow> request list \<Rightarrow> json list" where
  "groups_pages srv i [] = []"
| "groups_pages srv i (q # qs) =
     (if is_groups_request q then page_records ''groups'' (srv i) else []) @
     groups_pages srv (Suc i) qs"

fun without_members :: "json \<Rightarrow> json" where
  "without_members (JObj kvs) = JObj (AList.delete ''members'' kvs)"
| "without_members v = v"

definition members_attached :: "server \<Rightarrow> json \<Rightarrow> bool" where
  "members_attached srv g \<longleftrightarrow>
     (\<exists>ms reqs reqs'. field ''members'' g = JList ms \<and>
        fetch_group_members srv (field ''id'' g) reqs = Some (Inr ms, reqs'))"

lemma groups_pages_append:
  "groups_pages srv i (xs @ ys) = groups_pages srv i xs @ groups_pages srv (i + length xs) ys"
  by (induction xs arbitrary: i) auto

lemma groups_pages_none:
  "\<forall>q\<in>set qs. \<not> is_groups_request q \<Longrightarrow> groups_pages srv i qs = []"
  by (induction qs arbitrary: i) auto

lemma filter_groups_none:
  "\<forall>q\<in>set qs. \<not> is_groups_request q \<Longrightarrow> filter is_groups_request qs = []"
  by (induction qs) auto

lemma fetch_group_members_requests:
  assumes "fetch_group_members srv gid reqs = Some (r, reqs')"
  shows "\<exists>ext. reqs' = reqs @ ext \<and> (\<forall>q\<in>set ext. \<not> is_groups_request q)"
proof -
  from fetch_group_members_result[OF assms] obtain k where
    "reqs' = reqs @ map (\<lambda>j. GetGroupMembers gid 50 (1 + 50 * int j)) [0..<Suc k]" by blast
  moreover have "\<forall>q\<in>set (map (\<lambda>j. GetGroupMembers gid 50 (1 + 50 * int j)) [0..<Suc k]).
                   \<not> is_groups_request q" by auto
  ultimately show ?thesis by blast
qed

lemma py_setitem_members:
  assumes "py_getitem grp ''id'' = Inr gid" and "py_setitem grp ''members'' (JList ms) = Inr grp'"
  shows "without_members grp' = without_members grp \<and> field ''members'' grp' = JList ms \<and>
         field ''id'' grp' = gid"
  using assms
  by (cases grp) (auto simp: field_def delete_update_same update_conv' split: option.splits)

lemma attach_members_result:
  assumes "attach_members srv gs reqs = Some (r, reqs')"
  shows "\<exists>ext. reqs' = reqs @ ext \<and> (\<forall>q\<in>set ext. \<not> is_groups_request q) \<and>
           (\<forall>gs'. r = Inr gs' \<longrightarrow>
               map without_members gs' = map without_members gs \<and>
               (\<forall>g\<in>set gs'. members_attached srv g))"
  using assms
proof (induction gs arbitrary: reqs r reqs')
  case Nil
  then show ?case by auto
next
  case (Cons grp gs)
  show ?case
  proof (cases "py_getitem grp ''name''")
    case (Inl e)
    with Cons.prems show ?thesis by auto
  next
    case name: (Inr group_name)
    show ?thesis
    proof (cases "py_getitem grp ''id''")
      case (Inl e)
      with Cons.prems name show ?thesis by auto
    next
      case gid: (Inr group_id)
      show ?thesis
      proof (cases "fetch_group_members srv group_id reqs")
        case None
        with Cons.prems name gid show ?thesis by simp
      next
        case (Some a)
        obtain r1 reqs1 where a: "a = (r1, reqs1)" by (cases a)
        from fetch_group_members_requests[OF Some[unfolded a]] obtain ext1 where
          e1: "reqs1 = reqs @ ext1" "\<forall>q\<in>set ext1. \<not> is_groups_request q" by blast
        show ?thesis
        proof (cases r1)
          case (Inl e)
          with Cons.prems name gid Some a e1 show ?thesis by auto
        next
          case ms: (Inr members)
          show ?thesis
          proof (cases "py_setitem grp ''members'' (JList members)")
            case (Inl e)
            with Cons.prems name gid Some a ms e1 show ?thesis by auto
          next
            case set: (Inr grp')
            note g' = py_setitem_members[OF gid set]
            have att: "members_attached srv grp'"
              unfolding members_attached_def using g' Some a ms by auto
            show ?thesis
            proof (cases "attach_members srv gs reqs1")
              case None
              with Cons.prems name gid Some a ms set show ?thesis by simp
            next
              case rest: (Some b)
              obtain r2 reqs2 where b: "b = (r2, reqs2)" by (cases b)
              from Cons.IH[OF rest[unfolded b]] obtain ext2 where
                e2: "reqs2 = reqs1 @ ext2" "\<forall>q\<in>set ext2. \<not> is_groups_request q"
                    "\<forall>gs'. r2 = Inr gs' \<longrightarrow>
                        map without_members gs' = map without_members gs \<and>
                        (\<forall>g\<in>set gs'. members_attached srv g)"
                by blast
              have ext: "reqs2 = reqs @ (ext1 @ ext2)" "\<forall>q\<in>set (ext1 @ ext2). \<not> is_groups_request q"
                using e1 e2 by auto
              show ?thesis
              proof (cases r2)
                case (Inl e)
                with Cons.prems name gid Some a ms set rest b have "r = Inl e" "reqs' = reqs2" by auto
                with ext show ?thesis by blast
              next
                case (Inr gs2)
                with Cons.prems name gid Some a ms set rest b
                have r: "r = Inr (grp' # gs2)" and q: "reqs' = reqs2" by auto
                have "map without_members (grp' # gs2) = map without_members (grp # gs)"
                  using g' e2 Inr by simp
                moreover have "\<forall>g\<in>set (grp' # gs2). members_attached srv g"
                  using att e2 Inr by simp
                ultimately show ?thesis using r q ext by blast
              qed
            qed
          qed
        qed
      qed
    qed
  qed
qed

lemma groups_step_not_full:
  assumes "\<not> full_page ''groups'' (srv (length reqs))"
  shows "\<exists>r. fetch_groups_step srv c (reqs, acc, si) = Some (Inl r)"
  using assms
  by (auto simp: fetch_groups_step_def Let_def full_page_def page_of_def
           split: sum.splits if_splits)

lemma groups_step_Inl:
  assumes "fetch_groups_step srv c (reqs, acc, si) = Some (Inl (r, reqs1))"
  shows "\<exists>ext. reqs1 = reqs @ GetGroups c si # ext \<and> (\<forall>q\<in>set ext. \<not> is_groups_request q) \<and>
           (\<forall>xs. r = Inr xs \<longrightarrow> xs = acc \<and> ext = [] \<and> empty_page ''groups'' (srv (length reqs)))"
proof (cases "full_page ''groups'' (srv (length reqs))")
  case False
  with assms show ?thesis
    by (auto simp: fetch_groups_step_def Let_def full_page_def empty_page_def page_of_def
             split: sum.splits if_splits)
next
  case True
  then obtain data p gs where
    d: "srv (length reqs) = Inr data" "py_get data ''groups'' (JList []) = Inr p" "truthy p"
       "py_iter p = Inr gs"
    by (auto simp: full_page_def page_of_def split: sum.splits)
  with assms obtain e reqs2 where
    at: "attach_members srv gs (reqs @ [GetGroups c si]) = Some (Inl e, reqs2)"
    and r: "r = Inl e" "reqs1 = reqs2"
    by (auto simp: fetch_groups_step_def Let_def split: option.splits sum.splits)
  from attach_members_result[OF at] obtain ext where
    "reqs2 = (reqs @ [GetGroups c si]) @ ext" "\<forall>q\<in>set ext. \<not> is_groups_request q" by blast
  with r show ?thesis by auto
qed

lemma groups_step_Inr:
  assumes "fetch_groups_step srv c (reqs, acc, si) = Some (Inr (reqs1, acc1, si1))"
  shows "si1 = si + c \<and> full_page ''groups'' (srv (length reqs)) \<and>
         (\<exists>ext gs'. reqs1 = reqs @ GetGroups c si # ext \<and> (\<forall>q\<in>set ext. \<not> is_groups_request q) \<and>
            acc1 = acc @ gs' \<and>
            map without_members gs' = map without_members (page_records ''groups'' (srv (length reqs))) \<and>
            (\<forall>g\<in>set gs'. members_attached srv g))"
proof -
  from assms obtain data p gs gs' where
    d: "srv (length reqs) = Inr data" "py_get data ''groups'' (JList []) = Inr p" "truthy p"
       "py_iter p = Inr gs"
    and at: "attach_members srv gs (reqs @ [GetGroups c si]) = Some (Inr gs', reqs1)"
    and r: "acc1 = acc @ gs'" "si1 = si + c"
    by (auto simp: fetch_groups_step_def Let_def split: option.splits sum.splits if_splits)
  from attach_members_result[OF at] obtain ext where
    "reqs1 = (reqs @ [GetGroups c si]) @ ext" "\<forall>q\<in>set ext. \<not> is_groups_request q"
    "map without_members gs' = map without_members gs" "\<forall>g\<in>set gs'. members_attached srv g"
    by blast
  moreover have "page_records ''groups'' (srv (length reqs)) = gs"
    using d by (simp add: page_records_def page_of_def)
  moreover have "full_page ''groups'' (srv (length reqs))"
    using d by (simp add: full_page_def page_of_def)
  ultimately show ?thesis using r by auto
qed

lemma groups_iteration:
  assumes "iteration (fetch_groups_step srv c) k (reqs, acc, si) = Some (reqs', acc', si')"
  shows "si' = si + c * int k \<and>
         (\<exists>ext gs'. reqs' = reqs @ ext \<and>
            filter is_groups_request ext = map (\<lambda>j. GetGroups c (si + c * int j)) [0..<k] \<and>
            acc' = acc @ gs' \<and>
            map without_members gs' = map without_members (groups_pages srv (length reqs) ext) \<and>
            (\<forall>g\<in>set gs'. members_attached srv g))"
  using assms
proof (induction k arbitrary: reqs' acc' si')
  case 0
  then show ?case by simp
next
  case (Suc k)
  from Suc.prems obtain st where
    it: "iteration (fetch_groups_step srv c) k (reqs, acc, si) = Some st"
    and st: "fetch_groups_step srv c st = Some (Inr (reqs', acc', si'))"
    by (rule iteration_SucE)
  obtain reqs0 acc0 si0 where st0: "st = (reqs0, acc0, si0)" by (cases st)
  from Suc.IH[OF it[unfolded st0]] obtain ext0 gs0 where ih:
    "si0 = si + c * int k" "reqs0 = reqs @ ext0"
    "filter is_groups_request ext0 = map (\<lambda>j. GetGroups c (si + c * int j)) [0..<k]"
    "acc0 = acc @ gs0"
    "map without_members gs0 = map without_members (groups_pages srv (length reqs) ext0)"
    "\<forall>g\<in>set gs0. members_attached srv g"
    by blast
  from groups_step_Inr[OF st[unfolded st0]] obtain ext1 gs1 where step:
    "si' = si0 + c" "reqs' = reqs0 @ GetGroups c si0 # ext1"
    "\<forall>q\<in>set ext1. \<not> is_groups_request q" "acc' = acc0 @ gs1"
    "map without_members gs1 = map without_members (page_records ''groups'' (srv (length reqs0)))"
    "\<forall>g\<in>set gs1. members_attached srv g"
    by blast
  let ?ext = "ext0 @ GetGroups c si0 # ext1"
  have a: "si' = si + c * int (Suc k)" using ih step by (simp add: algebra_simps)
  have b: "reqs' = reqs @ ?ext" using ih step by simp
  have c: "filter is_groups_request ?ext = map (\<lambda>j. GetGroups c (si + c * int j)) [0..<Suc k]"
    using ih step filter_groups_none[OF step(3)] by simp
  have d: "acc' = acc @ (gs0 @ gs1)" using ih step by simp
  have "groups_pages srv (length reqs) ?ext =
          groups_pages srv (length reqs) ext0 @ page_records ''groups'' (srv (length reqs0))"
    using ih groups_pages_none[OF step(3)] by (simp add: groups_pages_append)
  then have e: "map without_members (gs0 @ gs1) = map without_members (groups_pages srv (length reqs) ?ext)"
    using ih step by simp
  have f: "\<forall>g\<in>set (gs0 @ gs1). members_attached srv g" using ih step by auto
  show ?case using a b c d e f by blast
qed

lemma fetch_groups_result:
  assumes "fetch_groups srv reqs = Some (r, reqs')"
  shows "\<exists>k ext. reqs' = reqs @ ext \<and>
           filter is_groups_request ext = map (\<lambda>j. GetGroups 20 (1 + 20 * int j)) [0..<Suc k] \<and>
           (\<forall>xs. r = Inr xs \<longrightarrow>
               empty_page ''groups'' (srv (length reqs' - 1)) \<and>
               is_groups_request (last reqs') \<and>
               map without_members xs = map without_members (groups_pages srv (length reqs) ext) \<and>
               (\<forall>g\<in>set xs. members_attached srv g))"
proof -
  from assms have "while_true (fetch_groups_step srv 20) (reqs, [], 1) = Some (r, reqs')"
    by (simp add: fetch_groups_def)
  from while_true_Some[OF this] obtain k st where
    it: "iteration (fetch_groups_step srv 20) k (reqs, [], 1) = Some st"
    and ex: "fetch_groups_step srv 20 st = Some (Inl (r, reqs'))"
    by blast
  obtain reqs0 acc0 si0 where st0: "st = (reqs0, acc0, si0)" by (cases st)
  from groups_iteration[OF it[unfolded st0]] obtain ext0 where inv:
    "si0 = 1 + 20 * int k" "reqs0 = reqs @ ext0"
    "filter is_groups_request ext0 = map (\<lambda>j. GetGroups 20 (1 + 20 * int j)) [0..<k]"
    "map without_members acc0 = map without_members (groups_pages srv (length reqs) ext0)"
    "\<forall>g\<in>set acc0. members_attached srv g"
    by auto
  from groups_step_Inl[OF ex[unfolded st0]] obtain ext1 where fin:
    "reqs' = reqs0 @ GetGroups 20 si0 # ext1" "\<forall>q\<in>set ext1. \<not> is_groups_request q"
    "\<forall>xs. r = Inr xs \<longrightarrow> xs = acc0 \<and> ext1 = [] \<and> empty_page ''groups'' (srv (length reqs0))"
    by blast
  let ?ext = "ext0 @ GetGroups 20 si0 # ext1"
  have a: "reqs' = reqs @ ?ext" using inv fin by simp
  have b: "filter is_groups_request ?ext = map (\<lambda>j. GetGroups 20 (1 + 20 * int j)) [0..<Suc k]"
    using inv filter_groups_none[OF fin(2)] by simp
  have c: "empty_page ''groups'' (srv (length reqs' - 1)) \<and>
           is_groups_request (last reqs') \<and>
           map without_members xs = map without_members (groups_pages srv (length reqs) ?ext) \<and>
           (\<forall>g\<in>set xs. members_attached srv g)" if "r = Inr xs" for xs
  proof -
    from fin that have x: "xs = acc0" "ext1 = []" and e: "empty_page ''groups'' (srv (length reqs0))"
      by simp_all
    have "groups_pages srv (length reqs) ?ext = groups_pages srv (length reqs) ext0"
      using x inv empty_page_records[OF e] by (simp add: groups_pages_append)
    then show ?thesis using x e inv fin by simp
  qed
  show ?thesis using a b c by blast
qed







text \<open>A server with two pages of users (the first with a next link), one page with one
  group, one page with one member of it, and empty pages from then on.\<close>

definition example_server :: server where
  "example_server n =
     (if n = 0 then
        Inr (JObj [(''data'', JList [JObj [(''accountId'', JStr ''u1'')]]),
                   (''links'', JObj [(''next'', JStr ''https://admin.atlassian.com/next'')])])
      else if n = 1 then
        Inr (JObj [(''data'', JList [JObj [(''name'', JStr ''Bob'')]]), (''links'', JObj [])])
      else if n = 2 then
        Inr (JObj [(''groups'', JList [JObj [(''name'', JStr ''devs''), (''id'', JStr ''g1'')]])])
      else if n = 3 then
        Inr (JObj [(''users'', JList [JObj [(''id'', JStr ''u1''), (''displayName'', JStr ''Ann'')]])])
      else Inr (JObj []))"

text \<open>The requests of \<^verbatim>\<open>fetch_users\<close> in that run.\<close>

definition example_users_log :: "request list" where
  "example_users_log =
     [GetUsers (JStr users_url), GetUsers (JStr ''https://admin.atlassian.com/next'')]"

lemmas fetch_simps =
  fetch_users_def fetch_users_step_def fetch_group_members_def fetch_group_members_step_def
  fetch_groups_def fetch_groups_step_def while_true.simps example_server_def
  example_users_log_def

lemma example_fetch_users:
  "fetch_users example_server [] =
     Some (Inr [JObj [(''accountId'', JStr ''u1'')], JObj [(''name'', JStr ''Bob'')]],
           example_users_log)"
  by (simp add: fetch_simps users_url_def)

lemma example_fetch_groups:
  "fetch_groups example_server example_users_log =
     Some (Inr [JObj [(''name'', JStr ''devs''), (''id'', JStr ''g1''),
                      (''members'', JList [JObj [(''id'', JStr ''u1''), (''displayName'', JStr ''Ann'')]])]],
           example_users_log @
           [GetGroups 20 1, GetGroupMembers (JStr ''g1'') 50 1, GetGroupMembers (JStr ''g1'') 50 51,
            GetGroups 20 21])"
  by (simp add: fetch_simps)


text \<open>
  The calls of \<^verbatim>\<open>fetch_group_members\<close> can be read off the requests: a call starts at
  each members request with start index 1. \<open>call_starts i reqs\<close> are the numbers of these
  requests among \<open>reqs\<close>, the first of which is request number \<open>i\<close>. A record \<open>x\<close> of the
  result is the record \<open>p\<close> of a page with its members attached at request number \<open>s\<close> of
  the requests \<open>reqs'\<close> of a run, when the call of \<^verbatim>\<open>fetch_group_members\<close> for the id of \<open>p\<close>
  that starts with request number \<open>s\<close> returns a list, having sent the requests up to some
  number \<open>b\<close> of the run, and \<open>x\<close> is \<open>p\<close> with that list assigned to its members field.
\<close>

fun is_call_start :: "request \<Rightarrow> bool" where
  "is_call_start (GetGroupMembers group_id c start_index) = (start_index = 1)"
| "is_call_start _ = False"

fun call_starts :: "nat \<Rightarrow> request list \<Rightarrow> nat list" where
  "call_starts i [] = []"
| "call_starts i (q # qs) = (if is_call_start q then [i] else []) @ call_starts (Suc i) qs"

definition attached_at :: "server \<Rightarrow> request list \<Rightarrow> json \<times> nat \<Rightarrow> json \<Rightarrow> bool" where
  "attached_at srv reqs' ps x =
     (case ps of (p, s) \<Rightarrow>
        \<exists>ms b. s < b \<and> b \<le> length reqs' \<and>
          fetch_group_members srv (field ''id'' p) (take s reqs') = Some (Inr ms, take b reqs') \<and>
          py_setitem p ''members'' (JList ms) = Inr x)"

lemma call_starts_append:
  "call_starts i (xs @ ys) = call_starts i xs @ call_starts (i + length xs) ys"
  by (induction xs arbitrary: i) auto

lemma call_starts_none:
  "\<forall>q\<in>set qs. \<not> is_call_start q \<Longrightarrow> call_starts i qs = []"
  by (induction qs arbitrary: i) auto

lemma call_starts_one_call:
  "call_starts i (map (\<lambda>j. GetGroupMembers gid 50 (1 + 50 * int j)) [0..<Suc k]) = [i]"
proof -
  have "[0..<Suc k] = 0 # [Suc 0..<Suc k]" by (simp add: upt_rec)
  moreover have "\<forall>q\<in>set (map (\<lambda>j. GetGroupMembers gid 50 (1 + 50 * int j)) [Suc 0..<Suc k]).
                   \<not> is_call_start q" by auto
  ultimately show ?thesis by (simp add: call_starts_none del: upt_Suc)
qed

lemma py_getitem_field: "py_getitem x k = Inr v \<Longrightarrow> field k x = v"
  by (cases x) (auto simp: field_def split: option.splits)

lemma attached_at_extend:
  assumes "attached_at srv reqs0 ps x"
  shows "attached_at srv (reqs0 @ later) ps x"
proof -
  obtain p s where ps: "ps = (p, s)" by (cases ps)
  from assms ps obtain ms b where
    "s < b" "b \<le> length reqs0"
    "fetch_group_members srv (field ''id'' p) (take s reqs0) = Some (Inr ms, take b reqs0)"
    "py_setitem p ''members'' (JList ms) = Inr x"
    by (auto simp: attached_at_def)
  then have "s < b \<and> b \<le> length (reqs0 @ later) \<and>
          fetch_group_members srv (field ''id'' p) (take s (reqs0 @ later)) =
            Some (Inr ms, take b (reqs0 @ later)) \<and>
          py_setitem p ''members'' (JList ms) = Inr x"
    by simp
  then show ?thesis unfolding attached_at_def ps by blast
qed

lemma attach_members_attached:
  assumes "attach_members srv gs reqs = Some (Inr gs', reqs')"
  shows "\<exists>ext. reqs' = reqs @ ext \<and> (\<forall>q\<in>set ext. \<not> is_groups_request q) \<and>
           length (call_starts (length reqs) ext) = length gs \<and>
           list_all2 (attached_at srv reqs') (zip gs (call_starts (length reqs) ext)) gs'"
  using assms
proof (induction gs arbitrary: reqs gs' reqs')
  case Nil
  then show ?case by auto
next
  case (Cons grp gs)
  from Cons.prems obtain gid ms reqs1 grp' rest where
    gid: "py_getitem grp ''id'' = Inr gid"
    and f: "fetch_group_members srv gid reqs = Some (Inr ms, reqs1)"
    and st: "py_setitem grp ''members'' (JList ms) = Inr grp'"
    and at: "attach_members srv gs reqs1 = Some (Inr rest, reqs')"
    and gs': "gs' = grp' # rest"
    by (auto split: sum.splits option.splits prod.splits)
  from fetch_group_members_result[OF f] obtain k where
    r1: "reqs1 = reqs @ map (\<lambda>j. GetGroupMembers gid 50 (1 + 50 * int j)) [0..<Suc k]" by blast
  let ?e1 = "map (\<lambda>j. GetGroupMembers gid 50 (1 + 50 * int j)) [0..<Suc k]"
  from Cons.IH[OF at] obtain e2 where ih:
    "reqs' = reqs1 @ e2" "\<forall>q\<in>set e2. \<not> is_groups_request q"
    "length (call_starts (length reqs1) e2) = length gs"
    "list_all2 (attached_at srv reqs') (zip gs (call_starts (length reqs1) e2)) rest"
    by blast
  have l1: "length reqs1 = length reqs + Suc k" using r1 by simp
  have cs: "call_starts (length reqs) (?e1 @ e2) = length reqs # call_starts (length reqs1) e2"
    unfolding call_starts_append call_starts_one_call using l1 by simp
  have a: "reqs' = reqs @ (?e1 @ e2)" using ih r1 by simp
  have b: "\<forall>q\<in>set (?e1 @ e2). \<not> is_groups_request q" using ih by auto
  have c: "length (call_starts (length reqs) (?e1 @ e2)) = length (grp # gs)"
    unfolding cs using ih by simp
  have "take (length reqs) reqs' = reqs" "take (length reqs1) reqs' = reqs1"
    using ih r1 by simp_all
  then have "attached_at srv reqs' (grp, length reqs) grp'"
    unfolding attached_at_def using f st l1 ih(1) py_getitem_field[OF gid]
    by (auto intro!: exI[of _ ms] exI[of _ "length reqs1"])
  then have d: "list_all2 (attached_at srv reqs') (zip (grp # gs) (call_starts (length reqs) (?e1 @ e2))) gs'"
    unfolding cs gs' using ih by simp
  show ?case using a b c d by blast
qed

lemma groups_step_Inr_attach:
  assumes "fetch_groups_step srv c (reqs, acc, si) = Some (Inr (reqs1, acc1, si1))"
  shows "\<exists>gs'. attach_members srv (page_records ''groups'' (srv (length reqs)))
                  (reqs @ [GetGroups c si]) = Some (Inr gs', reqs1) \<and> acc1 = acc @ gs'"
proof -
  from assms obtain data p gs gs' where
    d: "srv (length reqs) = Inr data" "py_get data ''groups'' (JList []) = Inr p" "truthy p"
       "py_iter p = Inr gs"
    and at: "attach_members srv gs (reqs @ [GetGroups c si]) = Some (Inr gs', reqs1)"
    and r: "acc1 = acc @ gs'"
    by (auto simp: fetch_groups_step_def Let_def split: option.splits sum.splits if_splits)
  have "page_records ''groups'' (srv (length reqs)) = gs"
    using d by (simp add: page_records_def page_of_def)
  with at r show ?thesis by blast
qed

lemma groups_iteration_attached:
  assumes "iteration (fetch_groups_step srv c) k (reqs, [], si) = Some (reqs', acc', si')"
  shows "\<exists>ext. reqs' = reqs @ ext \<and>
           length (call_starts (length reqs) ext) = length (groups_pages srv (length reqs) ext) \<and>
           list_all2 (attached_at srv reqs')
             (zip (groups_pages srv (length reqs) ext) (call_starts (length reqs) ext)) acc'"
  using assms
proof (induction k arbitrary: reqs' acc' si')
  case 0
  then show ?case by simp
next
  case (Suc k)
  from Suc.prems obtain st where
    it: "iteration (fetch_groups_step srv c) k (reqs, [], si) = Some st"
    and st: "fetch_groups_step srv c st = Some (Inr (reqs', acc', si'))"
    by (rule iteration_SucE)
  obtain reqs0 acc0 si0 where st0: "st = (reqs0, acc0, si0)" by (cases st)
  from Suc.IH[OF it[unfolded st0]] obtain ext0 where ih:
    "reqs0 = reqs @ ext0"
    "length (call_starts (length reqs) ext0) = length (groups_pages srv (length reqs) ext0)"
    "list_all2 (attached_at srv reqs0)
       (zip (groups_pages srv (length reqs) ext0) (call_starts (length reqs) ext0)) acc0"
    by blast
  let ?gs = "page_records ''groups'' (srv (length reqs0))"
  from groups_step_Inr_attach[OF st[unfolded st0]] obtain gs' where
    at: "attach_members srv ?gs (reqs0 @ [GetGroups c si0]) = Some (Inr gs', reqs')"
    and acc': "acc' = acc0 @ gs'" by blast
  from attach_members_attached[OF at] obtain ext1 where a1:
    "reqs' = (reqs0 @ [GetGroups c si0]) @ ext1" "\<forall>q\<in>set ext1. \<not> is_groups_request q"
    "length (call_starts (length (reqs0 @ [GetGroups c si0])) ext1) = length ?gs"
    "list_all2 (attached_at srv reqs')
       (zip ?gs (call_starts (length (reqs0 @ [GetGroups c si0])) ext1)) gs'"
    by blast
  let ?ext = "ext0 @ GetGroups c si0 # ext1"
  let ?st1 = "call_starts (Suc (length reqs0)) ext1"
  have l0: "length reqs0 = length reqs + length ext0" using ih by simp
  have gp: "groups_pages srv (length reqs) ?ext = groups_pages srv (length reqs) ext0 @ ?gs"
    using groups_pages_none[OF a1(2)] l0 by (simp add: groups_pages_append)
  have cs: "call_starts (length reqs) ?ext = call_starts (length reqs) ext0 @ ?st1"
    using l0 by (simp add: call_starts_append)
  have a: "reqs' = reqs @ ?ext" using ih a1 by simp
  have b: "length (call_starts (length reqs) ?ext) = length (groups_pages srv (length reqs) ?ext)"
    unfolding gp cs using ih a1 by simp
  have "reqs' = reqs0 @ (GetGroups c si0 # ext1)" using a1 by simp
  with ih(3) have old: "list_all2 (attached_at srv reqs')
       (zip (groups_pages srv (length reqs) ext0) (call_starts (length reqs) ext0)) acc0"
    using attached_at_extend by (auto elim!: list_all2_mono)
  have new: "list_all2 (attached_at srv reqs') (zip ?gs ?st1) gs'" using a1 by simp
  have c: "list_all2 (attached_at srv reqs')
             (zip (groups_pages srv (length reqs) ?ext) (call_starts (length reqs) ?ext)) acc'"
    unfolding gp cs acc' using ih(2) old new by (simp add: list_all2_appendI)
  show ?case using a b c by blast
qed

lemma fetch_groups_attached:
  assumes "fetch_groups srv reqs = Some (Inr xs, reqs')"
  shows "length (call_starts (length reqs) (drop (length reqs) reqs')) =
           length (groups_pages srv (length reqs) (drop (length reqs) reqs')) \<and>
         list_all2 (attached_at srv reqs')
           (zip (groups_pages srv (length reqs) (drop (length reqs) reqs'))
                (call_starts (length reqs) (drop (length reqs) reqs'))) xs"
proof -
  from assms have "while_true (fetch_groups_step srv 20) (reqs, [], 1) = Some (Inr xs, reqs')"
    by (simp add: fetch_groups_def)
  from while_true_Some[OF this] obtain k st where
    it: "iteration (fetch_groups_step srv 20) k (reqs, [], 1) = Some st"
    and ex: "fetch_groups_step srv 20 st = Some (Inl (Inr xs, reqs'))"
    by blast
  obtain reqs0 acc0 si0 where st0: "st = (reqs0, acc0, si0)" by (cases st)
  from groups_iteration_attached[OF it[unfolded st0]] obtain ext0 where inv:
    "reqs0 = reqs @ ext0"
    "length (call_starts (length reqs) ext0) = length (groups_pages srv (length reqs) ext0)"
    "list_all2 (attached_at srv reqs0)
       (zip (groups_pages srv (length reqs) ext0) (call_starts (length reqs) ext0)) acc0"
    by blast
  from groups_step_Inl[OF ex[unfolded st0]] have fin:
    "reqs' = reqs0 @ [GetGroups 20 si0]" "xs = acc0" "empty_page ''groups'' (srv (length reqs0))"
    by auto
  let ?ext = "ext0 @ [GetGroups 20 si0]"
  have l0: "length reqs0 = length reqs + length ext0" using inv by simp
  have d: "drop (length reqs) reqs' = ?ext" using fin inv by simp
  have gp: "groups_pages srv (length reqs) ?ext = groups_pages srv (length reqs) ext0"
    using empty_page_records[OF fin(3)] l0 by (simp add: groups_pages_append)
  have cs: "call_starts (length reqs) ?ext = call_starts (length reqs) ext0"
    by (simp add: call_starts_append)
  from inv(3) fin(1) have "list_all2 (attached_at srv reqs')
       (zip (groups_pages srv (length reqs) ext0) (call_starts (length reqs) ext0)) acc0"
    using attached_at_extend by (auto elim!: list_all2_mono)
  then show ?thesis unfolding d gp cs using inv(2) fin(2) by simp
qed

text \<open>
  Claim C3, as amended. The list that \<^verbatim>\<open>fetch_users\<close> or \<^verbatim>\<open>fetch_group_members\<close>
  returns is the concatenation, in the order received, of the records of the pages of all
  the responses to its requests. The list that \<^verbatim>\<open>fetch_groups\<close> returns holds, in the
  order received, the records of the pages that answered its group-list requests, none
  dropped, repeated or moved, each with its members field set to the list that
  \<^verbatim>\<open>fetch_group_members\<close> returned for the id of the group in the call made for it: the
  first call of the run for the first record, the second call for the second, and so on.
\<close>

theorem fetchers_return_pages_in_order:
  "(\<forall>xs reqs'. fetch_users srv reqs = Some (Inr xs, reqs') \<longrightarrow>
        xs = concat (map (\<lambda>i. page_records ''data'' (srv i)) [length reqs..<length reqs'])) \<and>
   (\<forall>xs reqs'. fetch_group_members srv group_id reqs = Some (Inr xs, reqs') \<longrightarrow>
        xs = concat (map (\<lambda>i. page_records ''users'' (srv i)) [length reqs..<length reqs'])) \<and>
   (\<forall>xs reqs'. fetch_groups srv reqs = Some (Inr xs, reqs') \<longrightarrow>
        map without_members xs =
          map without_members (groups_pages srv (length reqs) (drop (length reqs) reqs')) \<and>
        length (call_starts (length reqs) (drop (length reqs) reqs')) =
          length (groups_pages srv (length reqs) (drop (length reqs) reqs')) \<and>
        list_all2 (attached_at srv reqs')
          (zip (groups_pages srv (length reqs) (drop (length reqs) reqs'))
               (call_starts (length reqs) (drop (length reqs) reqs'))) xs)"
proof -
  have u: "xs = concat (map (\<lambda>i. page_records ''data'' (srv i)) [length reqs..<length reqs'])"
    if "fetch_users srv reqs = Some (Inr xs, reqs')" for xs reqs'
    using fetch_users_result[OF that] by simp
  have m: "xs = concat (map (\<lambda>i. page_records ''users'' (srv i)) [length reqs..<length reqs'])"
    if "fetch_group_members srv group_id reqs = Some (Inr xs, reqs')" for xs reqs'
    using fetch_group_members_result[OF that] by blast
  have g: "map without_members xs =
          map without_members (groups_pages srv (length reqs) (drop (length reqs) reqs')) \<and>
        length (call_starts (length reqs) (drop (length reqs) reqs')) =
          length (groups_pages srv (length reqs) (drop (length reqs) reqs')) \<and>
        list_all2 (attached_at srv reqs')
          (zip (groups_pages srv (length reqs) (drop (length reqs) reqs'))
               (call_starts (length reqs) (drop (length reqs) reqs'))) xs"
    if f: "fetch_groups srv reqs = Some (Inr xs, reqs')" for xs reqs'
  proof -
    from fetch_groups_result[OF f] obtain ext where
      "reqs' = reqs @ ext"
      "map without_members xs = map without_members (groups_pages srv (length reqs) ext)"
      by blast
    then have "map without_members xs =
          map without_members (groups_pages srv (length reqs) (drop (length reqs) reqs'))" by simp
    with fetch_groups_attached[OF f] show ?thesis by blast
  qed
  show ?thesis using u m g by blast
qed

lemma example_members_call:
  "fetch_group_members example_server (JStr ''g1'') (example_users_log @ [GetGroups 20 1]) =
     Some (Inr [JObj [(''id'', JStr ''u1''), (''displayName'', JStr ''Ann'')]],
           example_users_log @
           [GetGroups 20 1, GetGroupMembers (JStr ''g1'') 50 1, GetGroupMembers (JStr ''g1'') 50 51])"
  by (simp add: fetch_simps)

theorem fetchers_return_pages_in_order_witness:
  "fetch_users example_server [] =
     Some (Inr [JObj [(''accountId'', JStr ''u1'')], JObj [(''name'', JStr ''Bob'')]],
           example_users_log) \<and>
   [JObj [(''accountId'', JStr ''u1'')], JObj [(''name'', JStr ''Bob'')]] =
     page_records ''data'' (example_server 0) @ page_records ''data'' (example_server 1) \<and>
   attached_at example_server
     (example_users_log @
      [GetGroups 20 1, GetGroupMembers (JStr ''g1'') 50 1, GetGroupMembers (JStr ''g1'') 50 51,
       GetGroups 20 21])
     (JObj [(''name'', JStr ''devs''), (''id'', JStr ''g1'')], 3)
     (JObj [(''name'', JStr ''devs''), (''id'', JStr ''g1''),
            (''members'', JList [JObj [(''id'', JStr ''u1''), (''displayName'', JStr ''Ann'')]])])"
proof -
  let ?log = "example_users_log @
      [GetGroups 20 1, GetGroupMembers (JStr ''g1'') 50 1, GetGroupMembers (JStr ''g1'') 50 51,
       GetGroups 20 21]"
  note t = fetchers_return_pages_in_order[of example_server "[]", THEN conjunct1, rule_format,
             OF example_fetch_users]
  have "[length ([]::request list)..<length example_users_log] = [0, 1]"
    by (simp add: example_users_log_def upt_rec)
  with t have a: "[JObj [(''accountId'', JStr ''u1'')], JObj [(''name'', JStr ''Bob'')]] =
     page_records ''data'' (example_server 0) @ page_records ''data'' (example_server 1)"
    by simp
  note g = fetchers_return_pages_in_order[of example_server example_users_log,
             THEN conjunct2, THEN conjunct2, rule_format, OF example_fetch_groups]
  have d: "drop (length example_users_log) ?log =
             [GetGroups 20 1, GetGroupMembers (JStr ''g1'') 50 1,
              GetGroupMembers (JStr ''g1'') 50 51, GetGroups 20 21]" by simp
  have p: "groups_pages example_server (length example_users_log)
             [GetGroups 20 1, GetGroupMembers (JStr ''g1'') 50 1,
              GetGroupMembers (JStr ''g1'') 50 51, GetGroups 20 21] =
           [JObj [(''name'', JStr ''devs''), (''id'', JStr ''g1'')]]"
    by (simp add: example_users_log_def example_server_def page_records_def page_of_def)
  have c: "call_starts (length example_users_log)
             [GetGroups 20 1, GetGroupMembers (JStr ''g1'') 50 1,
              GetGroupMembers (JStr ''g1'') 50 51, GetGroups 20 21] = [3]"
    by (simp add: example_users_log_def)
  from g have b: "attached_at example_server ?log
     (JObj [(''name'', JStr ''devs''), (''id'', JStr ''g1'')], 3)
     (JObj [(''name'', JStr ''devs''), (''id'', JStr ''g1''),
            (''members'', JList [JObj [(''id'', JStr ''u1''), (''displayName'', JStr ''Ann'')]])])"
    unfolding d p c by simp
  from example_fetch_users a b show ?thesis by blast
qed

text \<open>
  Claim C3 as stated fails for \<^verbatim>\<open>fetch_groups\<close>. The page that answers its first request
  holds the record of the group devs with a name and an id; the list returned holds that
  record with a members field besides. The dict appended is the one received, but
  \<^verbatim>\<open>group['members'] = members\<close> has changed it before the page is appended, so the list
  returned is not the concatenation of the record lists as the server sent them.
\<close>

theorem fetch_groups_changes_records_counterexample:
  "fetch_groups example_server example_users_log =
     Some (Inr [JObj [(''name'', JStr ''devs''), (''id'', JStr ''g1''),
                      (''members'', JList [JObj [(''id'', JStr ''u1''), (''displayName'', JStr ''Ann'')]])]],
           example_users_log @
           [GetGroups 20 1, GetGroupMembers (JStr ''g1'') 50 1, GetGroupMembers (JStr ''g1'') 50 51,
            GetGroups 20 21]) \<and>
   groups_pages example_server 2
     [GetGroups 20 1, GetGroupMembers (JStr ''g1'') 50 1, GetGroupMembers (JStr ''g1'') 50 51,
      GetGroups 20 21] =
     [JObj [(''name'', JStr ''devs''), (''id'', JStr ''g1'')]] \<and>
   [JObj [(''name'', JStr ''devs''), (''id'', JStr ''g1''),
          (''members'', JList [JObj [(''id'', JStr ''u1''), (''displayName'', JStr ''Ann'')]])]]
     \<noteq> [JObj [(''name'', JStr ''devs''), (''id'', JStr ''g1'')]]"
  by (simp add: fetch_simps page_records_def page_of_def)


lemma members_round_sends:
  "\<exists>r. fetch_group_members_step srv group_id 50 (reqs, all_members, start_index) = Inl (r, reqs @ [GetGroupMembers group_id 50 start_index]) \<or>
       (\<exists>all_members'. fetch_group_members_step srv group_id 50 (reqs, all_members, start_index) =
          Inr (reqs @ [GetGroupMembers group_id 50 start_index], all_members', start_index + 50))"
  by (auto simp: fetch_group_members_step_def Let_def split: sum.splits)














section \<open>The run of login.py (\<^verbatim>\<open>main\<close>)\<close>

text \<open>
  What a run of login.py meets and what it leaves behind. The environment gives the
  outcome of \<^verbatim>\<open>login\<close> (a sequence of actions on the browser page that either all
  succeed or raise) and the server. The world records the requests sent, the files
  written, whether the browser is open, and the two messages that \<^verbatim>\<open>main\<close> itself prints;
  the progress messages of the steps are left out. What is raised is either an exception
  whose class derives from \<^verbatim>\<open>Exception\<close> (the exceptions of the steps are of this kind),
  or \<^verbatim>\<open>asyncio.CancelledError\<close> or \<^verbatim>\<open>KeyboardInterrupt\<close>, which derive from
  \<^verbatim>\<open>BaseException\<close> only and reach the script from outside, at an \<^verbatim>\<open>await\<close>; the
  model lets them arrive during the login. Failures of \<^verbatim>\<open>browser.close()\<close> are not
  modelled.
\<close>

datatype raised = FromException py_error | CancelledError | KeyboardInterrupt

datatype message = Finished | ErrorOccurred py_error

record env =
  login_outcome :: "raised option"
  server_of :: server

record world =
  requests :: "request list"
  written :: files
  console :: "message list"
  browser_open :: bool

definition login :: "env \<Rightarrow> world \<Rightarrow> raised option \<times> world" where
  "login e w = (login_outcome e, w)"

text \<open>\<^verbatim>\<open>except Exception\<close> catches an exception when its class derives from \<^verbatim>\<open>Exception\<close>.\<close>

fun derives_from_Exception :: "py_error \<Rightarrow> bool" where
  "derives_from_Exception AttributeError = True"
| "derives_from_Exception TypeError = True"
| "derives_from_Exception KeyError = True"
| "derives_from_Exception IndexError = True"
| "derives_from_Exception (DriverError msg) = True"

text \<open>\<^verbatim>\<open>except Exception as e\<close>: the exception that the handler binds, if it catches what
  was raised.\<close>

fun caught :: "raised \<Rightarrow> py_error option" where
  "caught (FromException err) = (if derives_from_Exception err then Some err else None)"
| "caught CancelledError = None"
| "caught KeyboardInterrupt = None"

text \<open>The body of the \<^verbatim>\<open>try\<close> block: the exception that leaves it, if any, and the world
  then.\<close>

definition main_try :: "env \<Rightarrow> world \<Rightarrow> (raised option \<times> world) option" where
  "main_try e w =
     (case login e w of
        (Some r, w1) \<Rightarrow> Some (Some r, w1)
      | (None, w1) \<Rightarrow>
     (case fetch_users (server_of e) (requests w1) of
        None \<Rightarrow> None
      | Some (Inl err, reqs) \<Rightarrow> Some (Some (FromException err), w1\<lparr>requests := reqs\<rparr>)
      | Some (Inr users, reqs) \<Rightarrow>
     (case fetch_groups (server_of e) reqs of
        None \<Rightarrow> None
      | Some (Inl err, reqs') \<Rightarrow> Some (Some (FromException err), w1\<lparr>requests := reqs'\<rparr>)
      | Some (Inr groups, reqs') \<Rightarrow>
     (case save_to_json (written w1) users groups of
        (Some err, fs) \<Rightarrow>
          Some (Some (FromException err), w1\<lparr>requests := reqs', written := fs\<rparr>)
      | (None, fs) \<Rightarrow>
          Some (None, w1\<lparr>requests := reqs', written := fs,
                           console := console w1 @ [Finished]\<rparr>)))))"

text \<open>\<^verbatim>\<open>main\<close>: the browser is launched, the \<^verbatim>\<open>try\<close> block runs, an exception that
  the handler catches is printed, and in every case the browser is closed. The result is
  what leaves \<^verbatim>\<open>main\<close>, if anything is raised out of it, and the world then.\<close>

definition main :: "env \<Rightarrow> world \<Rightarrow> (raised option \<times> world) option" where
  "main e w =
     (case main_try e (w\<lparr>browser_open := True\<rparr>) of
        None \<Rightarrow> None
      | Some (None, w1) \<Rightarrow> Some (None, w1\<lparr>browser_open := False\<rparr>)
      | Some (Some r, w1) \<Rightarrow>
          (case caught r of
             Some err \<Rightarrow>
               Some (None, w1\<lparr>console := console w1 @ [ErrorOccurred err],
                               browser_open := False\<rparr>)
           | None \<Rightarrow> Some (Some r, w1\<lparr>browser_open := False\<rparr>)))"

lemma py_get_other_key: "py_get x k d = Inr v \<Longrightarrow> \<exists>v'. py_get x k' d' = Inr v'"
  by (cases x) auto

lemma add_members_displayName:
  "add_members n ms m = Inr m' \<Longrightarrow>
     \<exists>names. comprehension (\<lambda>member. py_get member ''displayName'' JNull) ms = Inr names"
proof (induction ms arbitrary: m)
  case Nil
  then show ?case by simp
next
  case (Cons a ms)
  from Cons.prems obtain v where v: "py_get a ''id'' JNull = Inr v"
    by (auto split: sum.splits)
  from py_get_other_key[OF v] obtain v' where "py_get a ''displayName'' JNull = Inr v'" by blast
  moreover from Cons.prems v obtain m1 where "add_members n ms m1 = Inr m'"
    by (auto split: sum.splits option.splits)
  from Cons.IH[OF this] obtain names where
    "comprehension (\<lambda>member. py_get member ''displayName'' JNull) ms = Inr names" by blast
  ultimately show ?case by simp
qed

lemma add_groups_group_records:
  "add_groups gs m = Inr m' \<Longrightarrow> \<exists>rs. comprehension group_record gs = Inr rs"
proof (induction gs arbitrary: m)
  case Nil
  then show ?case by simp
next
  case (Cons g gs)
  from Cons.prems obtain n ms members m1 where
    n: "py_get g ''name'' JNull = Inr n" and
    ms: "py_get g ''members'' (JList []) = Inr ms" and
    it: "py_iter ms = Inr members" and
    am: "add_members n members m = Inr m1" and
    rest: "add_groups gs m1 = Inr m'"
    by (auto split: sum.splits)
  from py_get_other_key[OF n] obtain v1 where v1: "py_get g ''id'' JNull = Inr v1" by blast
  from py_get_other_key[OF n] obtain v2 where v2: "py_get g ''description'' JNull = Inr v2" by blast
  from add_members_displayName[OF am] obtain names where
    names: "comprehension (\<lambda>member. py_get member ''displayName'' JNull) members = Inr names" by blast
  have "\<exists>r. group_record g = Inr r"
    using n v1 v2 ms it names by (simp add: group_record_def)
  moreover from Cons.IH[OF rest] obtain rs where "comprehension group_record gs = Inr rs" by blast
  ultimately show ?case by auto
qed

lemma save_to_json_error_writes_nothing:
  assumes "save_to_json fs us gs = (Some e, fs')"
  shows "fs' = fs"
proof (cases "user_to_groups_map us gs")
  case (Inl a)
  with assms show ?thesis by (simp add: save_to_json_def)
next
  case (Inr m)
  then obtain m0 where "add_groups gs m0 = Inr m"
    by (auto simp: user_to_groups_map_def split: sum.splits)
  from add_groups_group_records[OF this] obtain rs where "comprehension group_record gs = Inr rs"
    by blast
  with assms Inr show ?thesis
    by (auto simp: save_to_json_def Let_def split: sum.splits)
qed

lemma caught_FromException: "caught (FromException err) = Some err"
  by (cases err) simp_all

lemma caught_None: "caught r = None \<longleftrightarrow> r = CancelledError \<or> r = KeyboardInterrupt"
  by (cases r) (simp_all add: caught_FromException[simplified])

lemma main_login_fails:
  assumes "login_outcome e = Some (FromException err)"
  shows "main e w = Some (None, w\<lparr>console := console w @ [ErrorOccurred err], browser_open := False\<rparr>)"
  using assms by (simp add: main_def main_try_def login_def caught_FromException del: caught.simps)

lemma main_login_interrupted:
  assumes "login_outcome e = Some r" and "caught r = None"
  shows "main e w = Some (Some r, w\<lparr>browser_open := False\<rparr>)"
  using assms by (simp add: main_def main_try_def login_def)

lemma main_fetch_users_fails:
  assumes "login_outcome e = None"
    and "fetch_users (server_of e) (requests w) = Some (Inl err, reqs)"
  shows "main e w = Some (None, w\<lparr>requests := reqs, console := console w @ [ErrorOccurred err],
                                  browser_open := False\<rparr>)"
  using assms by (simp add: main_def main_try_def login_def caught_FromException del: caught.simps)

lemma main_fetch_groups_fails:
  assumes "login_outcome e = None"
    and "fetch_users (server_of e) (requests w) = Some (Inr users, reqs)"
    and "fetch_groups (server_of e) reqs = Some (Inl err, reqs')"
  shows "main e w = Some (None, w\<lparr>requests := reqs', console := console w @ [ErrorOccurred err],
                                  browser_open := False\<rparr>)"
  using assms by (simp add: main_def main_try_def login_def caught_FromException del: caught.simps)

lemma main_save_fails:
  assumes "login_outcome e = None"
    and "fetch_users (server_of e) (requests w) = Some (Inr users, reqs)"
    and "fetch_groups (server_of e) reqs = Some (Inr groups, reqs')"
    and "save_to_json (written w) users groups = (Some err, fs)"
  shows "main e w = Some (None, w\<lparr>requests := reqs', console := console w @ [ErrorOccurred err],
                                  browser_open := False\<rparr>)"
proof -
  have "fs = written w" using assms(4) by (rule save_to_json_error_writes_nothing)
  with assms show ?thesis
    by (simp add: main_def main_try_def login_def caught_FromException del: caught.simps)
qed

lemma main_result:
  assumes "main e w = Some (p, w')"
  shows "\<not> browser_open w' \<and> (\<forall>err. p \<noteq> Some (FromException err))"
proof (cases "main_try e (w\<lparr>browser_open := True\<rparr>)")
  case None
  with assms show ?thesis by (simp add: main_def)
next
  case (Some a)
  obtain r w1 where a: "a = (r, w1)" by (cases a)
  show ?thesis
  proof (cases r)
    case None
    with assms Some a show ?thesis by (auto simp: main_def)
  next
    case r: (Some x)
    show ?thesis
    proof (cases "caught x")
      case None
      with assms Some a r have "p = Some x" "w' = w1\<lparr>browser_open := False\<rparr>"
        by (auto simp: main_def)
      with None show ?thesis by (auto simp: caught_FromException simp del: caught.simps)
    next
      case c: (Some err)
      with assms Some a r show ?thesis by (auto simp: main_def)
    qed
  qed
qed

text \<open>
  Claim C7, as amended. \<^verbatim>\<open>main\<close> has one handler around the whole sequence, and it is
  \<^verbatim>\<open>except Exception\<close>. Whenever \<^verbatim>\<open>main\<close> returns, the browser is closed and no exception
  deriving from \<^verbatim>\<open>Exception\<close> leaves it. When \<^verbatim>\<open>login\<close>, \<^verbatim>\<open>fetch_users\<close>,
  \<^verbatim>\<open>fetch_groups\<close> or \<^verbatim>\<open>save_to_json\<close> raises such an exception, the run ends with the
  exception printed and with nothing done beyond the failing step: no request after a
  failed login or a failed fetch other than those the failing fetch had sent, no file
  written in any of the four cases, and no message that the script finished. What the
  handler does not catch (\<^verbatim>\<open>CancelledError\<close>, \<^verbatim>\<open>KeyboardInterrupt\<close>) leaves \<^verbatim>\<open>main\<close>
  unprinted once the browser is closed.
\<close>

theorem main_catches_every_Exception:
  "(\<forall>p w'. main e w = Some (p, w') \<longrightarrow>
      \<not> browser_open w' \<and> (\<forall>err. p \<noteq> Some (FromException err))) \<and>
   (\<forall>err. login_outcome e = Some (FromException err) \<longrightarrow>
      main e w = Some (None, w\<lparr>console := console w @ [ErrorOccurred err],
                                browser_open := False\<rparr>)) \<and>
   (\<forall>err reqs.
      login_outcome e = None \<and>
      fetch_users (server_of e) (requests w) = Some (Inl err, reqs) \<longrightarrow>
      main e w = Some (None, w\<lparr>requests := reqs, console := console w @ [ErrorOccurred err],
                                browser_open := False\<rparr>)) \<and>
   (\<forall>err users reqs reqs'.
      login_outcome e = None \<and>
      fetch_users (server_of e) (requests w) = Some (Inr users, reqs) \<and>
      fetch_groups (server_of e) reqs = Some (Inl err, reqs') \<longrightarrow>
      main e w = Some (None, w\<lparr>requests := reqs', console := console w @ [ErrorOccurred err],
                                browser_open := False\<rparr>)) \<and>
   (\<forall>err users reqs groups reqs' fs.
      login_outcome e = None \<and>
      fetch_users (server_of e) (requests w) = Some (Inr users, reqs) \<and>
      fetch_groups (server_of e) reqs = Some (Inr groups, reqs') \<and>
      save_to_json (written w) users groups = (Some err, fs) \<longrightarrow>
      main e w = Some (None, w\<lparr>requests := reqs', console := console w @ [ErrorOccurred err],
                                browser_open := False\<rparr>)) \<and>
   (\<forall>r. login_outcome e = Some r \<and> caught r = None \<longrightarrow>
      main e w = Some (Some r, w\<lparr>browser_open := False\<rparr>))"
proof (intro conjI allI impI)
  fix p w'
  assume "main e w = Some (p, w')"
  from main_result[OF this] show "\<not> browser_open w'" by blast
next
  fix p w' err
  assume "main e w = Some (p, w')"
  from main_result[OF this] show "p \<noteq> Some (FromException err)" by blast
next
  fix err
  assume "login_outcome e = Some (FromException err)"
  then show "main e w = Some (None, w\<lparr>console := console w @ [ErrorOccurred err],
                                browser_open := False\<rparr>)"
    by (rule main_login_fails)
next
  fix err reqs
  assume "login_outcome e = None \<and>
      fetch_users (server_of e) (requests w) = Some (Inl err, reqs)"
  then show "main e w = Some (None, w\<lparr>requests := reqs, console := console w @ [ErrorOccurred err],
                                browser_open := False\<rparr>)"
    using main_fetch_users_fails by blast
next
  fix err users reqs reqs'
  assume "login_outcome e = None \<and>
      fetch_users (server_of e) (requests w) = Some (Inr users, reqs) \<and>
      fetch_groups (server_of e) reqs = Some (Inl err, reqs')"
  then show "main e w = Some (None, w\<lparr>requests := reqs', console := console w @ [ErrorOccurred err],
                                browser_open := False\<rparr>)"
    using main_fetch_groups_fails by blast
next
  fix err users reqs groups reqs' fs
  assume "login_outcome e = None \<and>
      fetch_users (server_of e) (requests w) = Some (Inr users, reqs) \<and>
      fetch_groups (server_of e) reqs = Some (Inr groups, reqs') \<and>
      save_to_json (written w) users groups = (Some err, fs)"
  then show "main e w = Some (None, w\<lparr>requests := reqs', console := console w @ [ErrorOccurred err],
                                browser_open := False\<rparr>)"
    using main_save_fails by blast
next
  fix r
  assume "login_outcome e = Some r \<and> caught r = None"
  then show "main e w = Some (Some r, w\<lparr>browser_open := False\<rparr>)"
    using main_login_interrupted by blast
qed

text \<open>Three runs: one in which the login times out, one in which the first request for
  users fails, and one that is cancelled during the login.\<close>

definition login_timeout_env :: env where
  "login_timeout_env =
     \<lparr>login_outcome = Some (FromException (DriverError ''Timeout 30000ms exceeded'')),
      server_of = example_server\<rparr>"

definition broken_server_env :: env where
  "broken_server_env =
     \<lparr>login_outcome = None, server_of = (\<lambda>n. Inl (DriverError ''connection refused''))\<rparr>"

definition cancelled_env :: env where
  "cancelled_env = \<lparr>login_outcome = Some CancelledError, server_of = example_server\<rparr>"

definition fresh_world :: world where
  "fresh_world = \<lparr>requests = [], written = no_files, console = [], browser_open = False\<rparr>"

theorem main_catches_every_Exception_witness:
  "login_outcome login_timeout_env = Some (FromException (DriverError ''Timeout 30000ms exceeded'')) \<and>
   main login_timeout_env fresh_world =
     Some (None, fresh_world\<lparr>console := [ErrorOccurred (DriverError ''Timeout 30000ms exceeded'')]\<rparr>) \<and>
   login_outcome broken_server_env = None \<and>
   fetch_users (server_of broken_server_env) (requests fresh_world) =
     Some (Inl (DriverError ''connection refused''), [GetUsers (JStr users_url)]) \<and>
   main broken_server_env fresh_world =
     Some (None, fresh_world\<lparr>requests := [GetUsers (JStr users_url)],
                              console := [ErrorOccurred (DriverError ''connection refused'')]\<rparr>)"
proof -
  have a: "login_outcome login_timeout_env =
             Some (FromException (DriverError ''Timeout 30000ms exceeded''))"
    by (simp add: login_timeout_env_def)
  have b: "login_outcome broken_server_env = None"
    by (simp add: broken_server_env_def)
  have c: "fetch_users (server_of broken_server_env) (requests fresh_world) =
             Some (Inl (DriverError ''connection refused''), [GetUsers (JStr users_url)])"
    by (simp add: broken_server_env_def fresh_world_def fetch_users_def fetch_users_step_def
          while_true.simps users_url_def)
  note t = main_catches_every_Exception[of login_timeout_env fresh_world]
  note t' = main_catches_every_Exception[of broken_server_env fresh_world]
  from t a have "main login_timeout_env fresh_world =
      Some (None, fresh_world\<lparr>console := console fresh_world @
                                 [ErrorOccurred (DriverError ''Timeout 30000ms exceeded'')],
                               browser_open := False\<rparr>)" by blast
  moreover from t' b c have "main broken_server_env fresh_world =
      Some (None, fresh_world\<lparr>requests := [GetUsers (JStr users_url)],
                               console := console fresh_world @
                                 [ErrorOccurred (DriverError ''connection refused'')],
                               browser_open := False\<rparr>)" by blast
  ultimately show ?thesis using a b c by (simp add: fresh_world_def)
qed

text \<open>
  Claim C7 as stated fails: a \<^verbatim>\<open>CancelledError\<close> raised during the login is not caught by
  the handler; it leaves \<^verbatim>\<open>main\<close> and nothing is printed.
\<close>

theorem main_lets_cancellation_through_counterexample:
  "login_outcome cancelled_env = Some CancelledError \<and>
   main cancelled_env fresh_world = Some (Some CancelledError, fresh_world) \<and>
   console fresh_world = []"
  by (simp add: cancelled_env_def fresh_world_def main_def main_try_def login_def)

section \<open>The setup script (setup.py)\<close>

text \<open>
  setup.py creates two groups and invites two users through the write APIs of the
  console. Its environment gives the outcome of the login, the cookies of the browser
  context (or the exception raised while reading them), and, for call number \<open>i\<close> of the
  run, what \<^verbatim>\<open>page.evaluate\<close> returns and what \<^verbatim>\<open>page.request.get\<close> answers (the
  \<^verbatim>\<open>ok\<close> flag and the decoded body). The world records the calls made, the messages that
  \<^verbatim>\<open>main\<close> prints, and whether the browser is open. The fixed waits are taken to succeed.
\<close>

datatype call =
    CreateGroup string string json
  | InviteUser string json
  | SearchUser string
  | AddUserToGroup json json json

datatype setup_message = Aborting | GroupNotFound string | SetupFinished | CriticalError py_error

record setup_env =
  setup_login_outcome :: "py_error option"
  cookies_outcome :: "py_error + json list"
  evaluated :: "nat \<Rightarrow> py_error + json"
  fetched :: "nat \<Rightarrow> py_error + (bool \<times> (py_error + json))"

record setup_world =
  calls :: "call list"
  setup_console :: "setup_message list"
  setup_browser_open :: bool

definition GROUPS_TO_CREATE :: "(string \<times> string) list" where
  "GROUPS_TO_CREATE =
     [(''DevOps Team'', ''Group for DevOps engineers.''),
      (''QA-Testers'', ''Group for the Quality Assurance team.'')]"

definition USERS_TO_INVITE :: "(string \<times> string) list" where
  "USERS_TO_INVITE =
     [(''devops-final@example.com'', ''DevOps Team''),
      (''qa-final@example.com'', ''QA-Testers'')]"

text \<open>\<^verbatim>\<open>get_csrf_token\<close>: the loop over the cookies returns the value of the first cookie
  named \<^verbatim>\<open>atlassian.account.xsrf.token\<close>, and \<^verbatim>\<open>None\<close> when there is none.\<close>

fun find_token :: "json list \<Rightarrow> py_error + json" where
  "find_token [] = Inr JNull"
| "find_token (cookie # cookies) =
     (case py_getitem cookie ''name'' of
        Inl err \<Rightarrow> Inl err
      | Inr n \<Rightarrow>
          if n = JStr ''atlassian.account.xsrf.token'' then py_getitem cookie ''value''
          else find_token cookies)"

definition get_csrf_token :: "setup_env \<Rightarrow> py_error + json" where
  "get_csrf_token e =
     (case cookies_outcome e of Inl err \<Rightarrow> Inl err | Inr cookies \<Rightarrow> find_token cookies)"

text \<open>\<^verbatim>\<open>create_group\<close>: the id of the new group, or \<^verbatim>\<open>None\<close> when the server refused. The
  error message formats \<^verbatim>\<open>result['status']\<close> and \<^verbatim>\<open>result['text']\<close>.\<close>

definition create_group ::
  "setup_env \<Rightarrow> string \<Rightarrow> string \<Rightarrow> json \<Rightarrow> setup_world \<Rightarrow> (py_error + json) \<times> setup_world" where
  "create_group e name description csrf_token w =
     (let w' = w\<lparr>calls := calls w @ [CreateGroup name description csrf_token]\<rparr> in
      case evaluated e (length (calls w)) of Inl err \<Rightarrow> (Inl err, w') | Inr result \<Rightarrow>
      case py_get result ''error'' JNull of Inl err \<Rightarrow> (Inl err, w') | Inr failed \<Rightarrow>
        if truthy failed then
          (case py_getitem result ''status'' of Inl err \<Rightarrow> (Inl err, w') | Inr status \<Rightarrow>
           case py_getitem result ''text'' of Inl err \<Rightarrow> (Inl err, w') | Inr txt \<Rightarrow>
             (Inr JNull, w'))
        else
          (case py_get result ''id'' JNull of Inl err \<Rightarrow> (Inl err, w') | Inr group_id \<Rightarrow>
             (Inr group_id, w')))"

text \<open>\<^verbatim>\<open>x[0]\<close>.\<close>

fun py_first :: "json \<Rightarrow> py_error + json" where
  "py_first (JList []) = Inl IndexError"
| "py_first (JList (x # xs)) = Inr x"
| "py_first (JStr []) = Inl IndexError"
| "py_first (JStr (c # cs)) = Inr (JStr [c])"
| "py_first (JObj kvs) = Inl KeyError"
| "py_first _ = Inl TypeError"

text \<open>\<^verbatim>\<open>invite_user\<close>: the invitation, then the search for the account id of the invited
  user; \<^verbatim>\<open>None\<close> when either did not succeed.\<close>

definition invite_user ::
  "setup_env \<Rightarrow> string \<Rightarrow> json \<Rightarrow> setup_world \<Rightarrow> (py_error + json) \<times> setup_world" where
  "invite_user e email csrf_token w =
     (let w1 = w\<lparr>calls := calls w @ [InviteUser email csrf_token]\<rparr> in
      case evaluated e (length (calls w)) of Inl err \<Rightarrow> (Inl err, w1) | Inr invite_result \<Rightarrow>
      case py_get invite_result ''ok'' JNull of Inl err \<Rightarrow> (Inl err, w1) | Inr ok \<Rightarrow>
        if \<not> truthy ok then
          (case py_getitem invite_result ''status'' of Inl err \<Rightarrow> (Inl err, w1) | Inr status \<Rightarrow>
           case py_getitem invite_result ''text'' of Inl err \<Rightarrow> (Inl err, w1) | Inr txt \<Rightarrow>
             (Inr JNull, w1))
        else
          (let w2 = w1\<lparr>calls := calls w1 @ [SearchUser email]\<rparr> in
           case fetched e (length (calls w1)) of Inl err \<Rightarrow> (Inl err, w2) | Inr (response_ok, body) \<Rightarrow>
             if \<not> response_ok then (Inr JNull, w2)
             else
               (case body of Inl err \<Rightarrow> (Inl err, w2) | Inr search_data \<Rightarrow>
                case py_get search_data ''data'' (JList []) of Inl err \<Rightarrow> (Inl err, w2) | Inr users_found \<Rightarrow>
                  if \<not> truthy users_found then (Inr JNull, w2)
                  else
                    (case py_first users_found of Inl err \<Rightarrow> (Inl err, w2) | Inr user \<Rightarrow>
                     case py_get user ''account_id'' JNull of Inl err \<Rightarrow> (Inl err, w2) | Inr user_id \<Rightarrow>
                       (Inr user_id, w2)))))"

text \<open>\<^verbatim>\<open>add_user_to_group\<close>: whether the user was added.\<close>

definition add_user_to_group ::
  "setup_env \<Rightarrow> json \<Rightarrow> json \<Rightarrow> json \<Rightarrow> setup_world \<Rightarrow> (py_error + bool) \<times> setup_world" where
  "add_user_to_group e group_id user_id csrf_token w =
     (let w' = w\<lparr>calls := calls w @ [AddUserToGroup group_id user_id csrf_token]\<rparr> in
      case evaluated e (length (calls w)) of Inl err \<Rightarrow> (Inl err, w') | Inr result \<Rightarrow>
      case py_get result ''success'' JNull of Inl err \<Rightarrow> (Inl err, w') | Inr success \<Rightarrow>
        if truthy success then (Inr True, w')
        else
          (case py_getitem result ''status'' of Inl err \<Rightarrow> (Inl err, w') | Inr status \<Rightarrow>
           case py_getitem result ''text'' of Inl err \<Rightarrow> (Inl err, w') | Inr txt \<Rightarrow>
             (Inr False, w')))"

text \<open>The two loops of \<^verbatim>\<open>main\<close>: the first fills \<^verbatim>\<open>group_id_map\<close>, the second invites
  the users and adds each to its group.\<close>

fun create_groups ::
  "setup_env \<Rightarrow> (string \<times> string) list \<Rightarrow> json \<Rightarrow> (string \<rightharpoonup> json) \<Rightarrow> setup_world
     \<Rightarrow> (py_error + (string \<rightharpoonup> json)) \<times> setup_world" where
  "create_groups e [] csrf_token group_id_map w = (Inr group_id_map, w)"
| "create_groups e (grp # rest) csrf_token group_id_map w =
     (case create_group e (fst grp) (snd grp) csrf_token w of
        (Inl err, w') \<Rightarrow> (Inl err, w')
      | (Inr group_id, w') \<Rightarrow>
          create_groups e rest csrf_token
            (if truthy group_id then group_id_map(fst grp \<mapsto> group_id) else group_id_map) w')"

fun invite_users ::
  "setup_env \<Rightarrow> (string \<times> string) list \<Rightarrow> json \<Rightarrow> (string \<rightharpoonup> json) \<Rightarrow> setup_world
     \<Rightarrow> py_error option \<times> setup_world" where
  "invite_users e [] csrf_token group_id_map w = (None, w)"
| "invite_users e (user_info # rest) csrf_token group_id_map w =
     (case invite_user e (fst user_info) csrf_token w of
        (Inl err, w') \<Rightarrow> (Some err, w')
      | (Inr user_id, w') \<Rightarrow>
          if truthy user_id then
            (case group_id_map (snd user_info) of
               Some target_group_id \<Rightarrow>
                 if truthy target_group_id then
                   (case add_user_to_group e target_group_id user_id csrf_token w' of
                      (Inl err, w'') \<Rightarrow> (Some err, w'')
                    | (Inr added, w'') \<Rightarrow> invite_users e rest csrf_token group_id_map w'')
                 else
                   invite_users e rest csrf_token group_id_map
                     (w'\<lparr>setup_console := setup_console w' @ [GroupNotFound (snd user_info)]\<rparr>)
             | None \<Rightarrow>
                 invite_users e rest csrf_token group_id_map
                   (w'\<lparr>setup_console := setup_console w' @ [GroupNotFound (snd user_info)]\<rparr>))
          else invite_users e rest csrf_token group_id_map w')"

text \<open>The \<^verbatim>\<open>try\<close> block of \<^verbatim>\<open>main\<close>, with its early \<^verbatim>\<open>return\<close> when no token was found,
  and \<^verbatim>\<open>main\<close> with its handler and its \<^verbatim>\<open>finally\<close>.\<close>

definition setup_try :: "setup_env \<Rightarrow> setup_world \<Rightarrow> py_error option \<times> setup_world" where
  "setup_try e w =
     (case setup_login_outcome e of
        Some err \<Rightarrow> (Some err, w)
      | None \<Rightarrow>
     (case get_csrf_token e of
        Inl err \<Rightarrow> (Some err, w)
      | Inr csrf_token \<Rightarrow>
          if \<not> truthy csrf_token
          then (None, w\<lparr>setup_console := setup_console w @ [Aborting]\<rparr>)
          else
            (case create_groups e GROUPS_TO_CREATE csrf_token Map.empty w of
               (Inl err, w1) \<Rightarrow> (Some err, w1)
             | (Inr group_id_map, w1) \<Rightarrow>
                 (case invite_users e USERS_TO_INVITE csrf_token group_id_map w1 of
                    (Some err, w2) \<Rightarrow> (Some err, w2)
                  | (None, w2) \<Rightarrow>
                      (None, w2\<lparr>setup_console := setup_console w2 @ [SetupFinished]\<rparr>)))))"

definition setup_main :: "setup_env \<Rightarrow> setup_world \<Rightarrow> py_error option \<times> setup_world" where
  "setup_main e w =
     (case setup_try e (w\<lparr>setup_browser_open := True\<rparr>) of
        (None, w1) \<Rightarrow> (None, w1\<lparr>setup_browser_open := False\<rparr>)
      | (Some err, w1) \<Rightarrow>
          if derives_from_Exception err
          then (None, w1\<lparr>setup_console := setup_console w1 @ [CriticalError err],
                         setup_browser_open := False\<rparr>)
          else (Some err, w1\<lparr>setup_browser_open := False\<rparr>))"

lemma find_token_absent:
  assumes "\<forall>c\<in>set cookies. \<exists>n. py_getitem c ''name'' = Inr n \<and> n \<noteq> JStr ''atlassian.account.xsrf.token''"
  shows "find_token cookies = Inr JNull"
  using assms by (induction cookies) auto

lemma setup_try_no_token:
  assumes "\<forall>t. get_csrf_token e = Inr t \<longrightarrow> \<not> truthy t"
  shows "calls (snd (setup_try e w)) = calls w"
  using assms by (auto simp: setup_try_def split: option.splits sum.splits)

lemma setup_main_calls: "calls (snd (setup_main e w)) = calls (snd (setup_try e (w\<lparr>setup_browser_open := True\<rparr>)))"
  by (auto simp: setup_main_def split: prod.splits option.splits)

lemma setup_main_never_raises: "fst (setup_main e w) = None"
proof (cases "setup_try e (w\<lparr>setup_browser_open := True\<rparr>)")
  case (Pair r w1)
  show ?thesis
  proof (cases r)
    case None
    with Pair show ?thesis by (simp add: setup_main_def)
  next
    case (Some err)
    with Pair show ?thesis by (cases err) (simp_all add: setup_main_def)
  qed
qed

text \<open>
  Claim C9. In setup.py, when no usable CSRF token is obtained (the cookie is not among
  the cookies, its value is empty, or reading the cookies raises), \<^verbatim>\<open>main\<close> makes no call
  at all: no \<^verbatim>\<open>create_group\<close>, \<^verbatim>\<open>invite_user\<close> or \<^verbatim>\<open>add_user_to_group\<close> is attempted and
  no exception leaves \<^verbatim>\<open>main\<close>. In particular, when every cookie has a name other than
  \<^verbatim>\<open>atlassian.account.xsrf.token\<close>, \<^verbatim>\<open>get_csrf_token\<close> returns \<^verbatim>\<open>None\<close> and, after a
  successful login, \<^verbatim>\<open>main\<close> prints that it aborts, closes the browser and does nothing
  else.
\<close>

theorem no_write_without_csrf_token:
  "((\<forall>t. get_csrf_token e = Inr t \<longrightarrow> \<not> truthy t) \<longrightarrow>
       calls (snd (setup_main e w)) = calls w \<and> fst (setup_main e w) = None) \<and>
   (cookies_outcome e = Inr cookies \<and>
    (\<forall>c\<in>set cookies. \<exists>n. py_getitem c ''name'' = Inr n \<and> n \<noteq> JStr ''atlassian.account.xsrf.token'')
      \<longrightarrow> get_csrf_token e = Inr JNull \<and>
          calls (snd (setup_main e w)) = calls w \<and>
          (setup_login_outcome e = None \<longrightarrow>
             setup_main e w =
               (None, w\<lparr>setup_console := setup_console w @ [Aborting], setup_browser_open := False\<rparr>)))"
proof (intro conjI impI)
  assume a: "\<forall>t. get_csrf_token e = Inr t \<longrightarrow> \<not> truthy t"
  show "calls (snd (setup_main e w)) = calls w"
    using setup_try_no_token[OF a] by (simp add: setup_main_calls)
  show "fst (setup_main e w) = None" by (rule setup_main_never_raises)
next
  assume b: "cookies_outcome e = Inr cookies \<and>
    (\<forall>c\<in>set cookies. \<exists>n. py_getitem c ''name'' = Inr n \<and> n \<noteq> JStr ''atlassian.account.xsrf.token'')"
  then have t: "get_csrf_token e = Inr JNull"
    using find_token_absent by (simp add: get_csrf_token_def)
  then show "get_csrf_token e = Inr JNull" .
  from t have "\<forall>t. get_csrf_token e = Inr t \<longrightarrow> \<not> truthy t" by simp
  from setup_try_no_token[OF this] show "calls (snd (setup_main e w)) = calls w"
    by (simp add: setup_main_calls)
  show "setup_main e w =
               (None, w\<lparr>setup_console := setup_console w @ [Aborting], setup_browser_open := False\<rparr>)"
    if "setup_login_outcome e = None"
    using that t by (simp add: setup_main_def setup_try_def)
qed

text \<open>Two runs of setup.py after a successful login: one whose only cookie is a session
  cookie, and one with the token cookie, in which the server accepts every call.\<close>

definition no_token_env :: setup_env where
  "no_token_env =
     \<lparr>setup_login_outcome = None,
      cookies_outcome = Inr [JObj [(''name'', JStr ''cloud.session.token''), (''value'', JStr ''abc'')]],
      evaluated = (\<lambda>i. Inr (JObj [(''id'', JStr ''g''), (''ok'', JBool True), (''success'', JBool True)])),
      fetched = (\<lambda>i. Inr (True, Inr (JObj [(''data'', JList [JObj [(''account_id'', JStr ''u'')]])])))\<rparr>"

definition token_env :: setup_env where
  "token_env =
     no_token_env\<lparr>cookies_outcome :=
       Inr [JObj [(''name'', JStr ''atlassian.account.xsrf.token''), (''value'', JStr ''tok'')]]\<rparr>"

definition fresh_setup_world :: setup_world where
  "fresh_setup_world = \<lparr>calls = [], setup_console = [], setup_browser_open = False\<rparr>"

lemmas setup_simps =
  setup_main_def setup_try_def get_csrf_token_def create_group_def invite_user_def
  add_user_to_group_def GROUPS_TO_CREATE_def USERS_TO_INVITE_def no_token_env_def token_env_def
  fresh_setup_world_def

lemma setup_with_token_writes:
  "setup_main token_env fresh_setup_world =
     (None,
      \<lparr>calls =
         [CreateGroup ''DevOps Team'' ''Group for DevOps engineers.'' (JStr ''tok''),
          CreateGroup ''QA-Testers'' ''Group for the Quality Assurance team.'' (JStr ''tok''),
          InviteUser ''devops-final@example.com'' (JStr ''tok''),
          SearchUser ''devops-final@example.com'',
          AddUserToGroup (JStr ''g'') (JStr ''u'') (JStr ''tok''),
          InviteUser ''qa-final@example.com'' (JStr ''tok''),
          SearchUser ''qa-final@example.com'',
          AddUserToGroup (JStr ''g'') (JStr ''u'') (JStr ''tok'')],
       setup_console = [SetupFinished], setup_browser_open = False\<rparr>)"
  by (simp add: setup_simps)

theorem no_write_without_csrf_token_witness:
  "cookies_outcome no_token_env =
     Inr [JObj [(''name'', JStr ''cloud.session.token''), (''value'', JStr ''abc'')]] \<and>
   py_getitem (JObj [(''name'', JStr ''cloud.session.token''), (''value'', JStr ''abc'')]) ''name''
     = Inr (JStr ''cloud.session.token'') \<and>
   JStr ''cloud.session.token'' \<noteq> JStr ''atlassian.account.xsrf.token'' \<and>
   setup_login_outcome no_token_env = None \<and>
   get_csrf_token no_token_env = Inr JNull \<and>
   calls (snd (setup_main no_token_env fresh_setup_world)) = [] \<and>
   setup_main no_token_env fresh_setup_world =
     (None, fresh_setup_world\<lparr>setup_console := [Aborting]\<rparr>)"
proof -
  let ?cs = "[JObj [(''name'', JStr ''cloud.session.token''), (''value'', JStr ''abc'')]]"
  have c: "cookies_outcome no_token_env = Inr ?cs" by (simp add: no_token_env_def)
  have n: "\<forall>c\<in>set ?cs. \<exists>n. py_getitem c ''name'' = Inr n \<and> n \<noteq> JStr ''atlassian.account.xsrf.token''"
    by simp
  have l: "setup_login_outcome no_token_env = None" by (simp add: no_token_env_def)
  from no_write_without_csrf_token[of no_token_env fresh_setup_world ?cs, THEN conjunct2] c n
  have r: "get_csrf_token no_token_env = Inr JNull \<and>
          calls (snd (setup_main no_token_env fresh_setup_world)) = calls fresh_setup_world \<and>
          (setup_login_outcome no_token_env = None \<longrightarrow>
             setup_main no_token_env fresh_setup_world =
               (None, fresh_setup_world\<lparr>setup_console := setup_console fresh_setup_world @ [Aborting],
                                        setup_browser_open := False\<rparr>))"
    by blast
  with l have "setup_main no_token_env fresh_setup_world =
               (None, fresh_setup_world\<lparr>setup_console := setup_console fresh_setup_world @ [Aborting],
                                        setup_browser_open := False\<rparr>)" by blast
  then have "setup_main no_token_env fresh_setup_world =
     (None, fresh_setup_world\<lparr>setup_console := [Aborting]\<rparr>)"
    by (simp add: fresh_setup_world_def)
  with r c l show ?thesis by (simp add: fresh_setup_world_def)
qed

section \<open>Well-formed collections are always written\<close>

text \<open>A user or a member is well formed when it is a dict whose identifier can be hashed
  (anything but a list or a dict), a group when it is a dict whose members can be run
  through and are well formed. For collections of this form \<^verbatim>\<open>save_to_json\<close> raises
  nothing and writes both files.\<close>

definition well_formed_user :: "json \<Rightarrow> bool" where
  "well_formed_user u =
     (case py_get u ''accountId'' JNull of Inl err \<Rightarrow> False | Inr v \<Rightarrow> hash_key v \<noteq> None)"

definition well_formed_member :: "json \<Rightarrow> bool" where
  "well_formed_member x =
     (case py_get x ''id'' JNull of Inl err \<Rightarrow> False | Inr v \<Rightarrow> hash_key v \<noteq> None)"

definition well_formed_group :: "json \<Rightarrow> bool" where
  "well_formed_group g =
     (case py_get g ''members'' (JList []) of
        Inl err \<Rightarrow> False
      | Inr v \<Rightarrow> (case py_iter v of Inl err \<Rightarrow> False | Inr ms \<Rightarrow> list_all well_formed_member ms))"

lemma init_well_formed:
  "list_all well_formed_user us \<Longrightarrow> \<exists>m'. user_to_groups_init us m = Inr m'"
  by (induction us arbitrary: m) (auto simp: well_formed_user_def split: sum.splits)

lemma add_members_well_formed:
  "list_all well_formed_member ms \<Longrightarrow> \<exists>m'. add_members n ms m = Inr m'"
  by (induction ms arbitrary: m) (auto simp: well_formed_member_def split: sum.splits option.splits)

lemma add_groups_well_formed:
  "list_all well_formed_group gs \<Longrightarrow> \<exists>m'. add_groups gs m = Inr m'"
proof (induction gs arbitrary: m)
  case Nil
  then show ?case by simp
next
  case (Cons g gs)
  from Cons.prems have wfg: "well_formed_group g" and rest: "list_all well_formed_group gs"
    by simp_all
  from wfg obtain v ms where
    v: "py_get g ''members'' (JList []) = Inr v" and it: "py_iter v = Inr ms"
    and wf: "list_all well_formed_member ms"
    by (auto simp: well_formed_group_def split: sum.splits)
  from py_get_other_key[OF v] obtain n where n: "py_get g ''name'' JNull = Inr n" by blast
  from add_members_well_formed[OF wf] obtain m1 where "add_members n ms m = Inr m1" by blast
  with Cons.IH[OF rest, of m1] n v it show ?case by auto
qed

lemma user_records_well_formed:
  "list_all well_formed_user us \<Longrightarrow> \<exists>uo. comprehension (user_record m) us = Inr uo"
proof (induction us)
  case Nil
  then show ?case by simp
next
  case (Cons u us)
  from Cons.prems have "well_formed_user u" by simp
  then obtain v k where v: "py_get u ''accountId'' JNull = Inr v" and k: "hash_key v = Some k"
    by (auto simp: well_formed_user_def split: sum.splits)
  from py_get_other_key[OF v] obtain a where a: "py_get u ''name'' JNull = Inr a" by blast
  from py_get_other_key[OF v] obtain b where b: "py_get u ''email'' JNull = Inr b" by blast
  from py_get_other_key[OF v] obtain c where c: "py_get u ''last_active_date'' JNull = Inr c" by blast
  from py_get_other_key[OF v] obtain d where d: "py_get u ''status'' JNull = Inr d" by blast
  have "\<exists>r. user_record m u = Inr r" using v k a b c d by (simp add: user_record_def)
  with Cons show ?case by auto
qed

lemma save_to_json_well_formed:
  assumes "list_all well_formed_user users_data" and "list_all well_formed_group groups_data"
  shows "\<exists>uo go. save_to_json fs users_data groups_data =
           (None, fs(''users.json'' \<mapsto> JList uo, ''groups.json'' \<mapsto> JList go))"
proof -
  from init_well_formed[OF assms(1)] obtain m0 where
    m0: "user_to_groups_init users_data Map.empty = Inr m0" by blast
  from add_groups_well_formed[OF assms(2)] obtain m where m: "add_groups groups_data m0 = Inr m"
    by blast
  from user_records_well_formed[OF assms(1)] obtain uo where
    uo: "comprehension (user_record m) users_data = Inr uo" by blast
  from add_groups_group_records[OF m] obtain go where
    go: "comprehension group_record groups_data = Inr go" by blast
  from m0 m uo go show ?thesis
    by (intro exI[of _ uo] exI[of _ go]) (simp add: save_to_json_def user_to_groups_map_def)
qed

text \<open>The whole of login.py against the example server.\<close>

lemma main_example_run:
  "main \<lparr>login_outcome = None, server_of = example_server\<rparr> fresh_world =
     Some (None,
       \<lparr>requests = example_users_log @
           [GetGroups 20 1, GetGroupMembers (JStr ''g1'') 50 1,
            GetGroupMembers (JStr ''g1'') 50 51, GetGroups 20 21],
        written = no_files
          (''users.json'' \<mapsto> JList
             [JObj [(''id'', JStr ''u1''), (''name'', JNull), (''email'', JNull),
                    (''last_active'', JNull), (''status'', JNull),
                    (''groups'', JList [JStr ''devs''])],
              JObj [(''id'', JNull), (''name'', JStr ''Bob''), (''email'', JNull),
                    (''last_active'', JNull), (''status'', JNull), (''groups'', JList [])]],
           ''groups.json'' \<mapsto> JList
             [JObj [(''id'', JStr ''g1''), (''name'', JStr ''devs''), (''description'', JNull),
                    (''members'', JList [JStr ''Ann''])]]),
        console = [Finished], browser_open = False\<rparr>)"
  by (simp add: main_def main_try_def login_def fresh_world_def example_fetch_users
        example_fetch_groups save_to_json_def user_to_groups_map_def user_record_def
        group_record_def)

end
